theory Spec2Isabelle
  imports Complex_Main
begin

section \<open>Numbers\<close>

text \<open>
  Python's \<open>float\<close> and JavaScript's \<open>Number\<close> are both IEEE 754 binary64. A finite
  double is a rational \<open>n * 2^e\<close> with \<open>|n| < 2^53\<close> and \<open>-1074 \<le> e \<le> 971\<close>; the model keeps
  its exact value, beside the two infinities and NaN. Every arithmetic operation returns
  the exact result rounded to the nearest double, a tie going to the even significand, and
  an infinity once the rounded size reaches \<open>2^1024\<close>. Zero carries no sign: the programs
  divide only behind a guard against a zero divisor, and \<open>-0\<close> compares, adds, multiplies
  and prints as \<open>0\<close> does. The values that enter (prices, cursor coordinates) are doubles.
\<close>

datatype double = Fin rat | PosInf | NegInf | NaN

fun isFinite :: "double \<Rightarrow> bool" where
  "isFinite (Fin q) = True"
| "isFinite PosInf = False"
| "isFinite NegInf = False"
| "isFinite NaN = False"

definition signed_inf :: "bool \<Rightarrow> double" where
  "signed_inf negative = (if negative then NegInf else PosInf)"

text \<open>The number of binary digits of a positive integer.\<close>

function bits :: "int \<Rightarrow> int" where
  "bits n = (if n \<le> 0 then 0 else 1 + bits (n div 2))"
  by pat_completeness auto
termination
  by (relation "measure nat") auto

declare bits.simps [simp del]

text \<open>The binary exponent of a positive rational: the \<open>k\<close> with \<open>2^k \<le> x < 2^(k+1)\<close>.\<close>

definition ilog2 :: "rat \<Rightarrow> int" where
  "ilog2 x =
     (if 1 \<le> x then bits \<lfloor>x\<rfloor> - 1
      else (let j = bits \<lfloor>1 / x\<rfloor> - 1 in if 2 powi (- j) \<le> x then - j else - j - 1))"

definition round_half_even :: "rat \<Rightarrow> int" where
  "round_half_even q =
     (let f = \<lfloor>q\<rfloor>; d = q - of_int f
      in if d < 1 / 2 then f else if 1 / 2 < d then f + 1 else if even f then f else f + 1)"

text \<open>
  Rounding to binary64. \<open>e\<close> is the exponent of the last place: 52 below the binary
  exponent of the number, and never below that of the subnormals. The significand \<open>n\<close> is
  at most \<open>2^53\<close>, so the rounded size reaches \<open>2^1024\<close> exactly when \<open>e\<close> exceeds 971, or
  equals it with \<open>n = 2^53\<close>.
\<close>

definition round_double :: "rat \<Rightarrow> double" where
  "round_double x =
     (if x = 0 then Fin 0
      else (let a = \<bar>x\<bar>;
                e = max (ilog2 a - 52) (- 1074);
                n = round_half_even (a / 2 powi e)
            in if 971 < e \<or> e = 971 \<and> 2 ^ 53 \<le> n then signed_inf (x < 0)
               else Fin (if x < 0 then - (of_int n * 2 powi e) else of_int n * 2 powi e)))"

text \<open>The unit roundoff of binary64 and half of its smallest positive number.\<close>

definition unit_roundoff :: rat where
  "unit_roundoff = 1 / 2 ^ 53"

definition eta :: rat where
  "eta = 1 / 2 ^ 1075"

fun dneg :: "double \<Rightarrow> double" where
  "dneg (Fin q) = Fin (- q)"
| "dneg PosInf = NegInf"
| "dneg NegInf = PosInf"
| "dneg NaN = NaN"

fun dadd :: "double \<Rightarrow> double \<Rightarrow> double" where
  "dadd NaN y = NaN"
| "dadd x NaN = NaN"
| "dadd (Fin p) (Fin q) = round_double (p + q)"
| "dadd (Fin p) y = y"
| "dadd x (Fin q) = x"
| "dadd PosInf PosInf = PosInf"
| "dadd NegInf NegInf = NegInf"
| "dadd PosInf NegInf = NaN"
| "dadd NegInf PosInf = NaN"

definition dsub :: "double \<Rightarrow> double \<Rightarrow> double" where
  "dsub x y = dadd x (dneg y)"

fun dmul :: "double \<Rightarrow> double \<Rightarrow> double" where
  "dmul NaN y = NaN"
| "dmul x NaN = NaN"
| "dmul (Fin p) (Fin q) = round_double (p * q)"
| "dmul (Fin p) PosInf = (if p = 0 then NaN else signed_inf (p < 0))"
| "dmul (Fin p) NegInf = (if p = 0 then NaN else signed_inf (0 < p))"
| "dmul PosInf (Fin q) = (if q = 0 then NaN else signed_inf (q < 0))"
| "dmul NegInf (Fin q) = (if q = 0 then NaN else signed_inf (0 < q))"
| "dmul PosInf PosInf = PosInf"
| "dmul NegInf NegInf = PosInf"
| "dmul PosInf NegInf = NegInf"
| "dmul NegInf PosInf = NegInf"

text \<open>
  Division. Both divisions of the program sit behind a guard that makes the divisor finite
  and not zero (\<open>x1ms == x0ms\<close> in the compilers, \<open>yref === 0\<close> in the formatters); a zero
  divisor gives the unsigned model's best answer and is never reached.
\<close>

fun ddiv :: "double \<Rightarrow> double \<Rightarrow> double" where
  "ddiv NaN y = NaN"
| "ddiv x NaN = NaN"
| "ddiv (Fin p) (Fin q) =
     (if q = 0 then (if p = 0 then NaN else signed_inf (p < 0)) else round_double (p / q))"
| "ddiv (Fin p) y = Fin 0"
| "ddiv PosInf (Fin q) = signed_inf (q < 0)"
| "ddiv NegInf (Fin q) = signed_inf (0 \<le> q)"
| "ddiv x y = NaN"

text \<open>The comparisons \<open>>\<close> and \<open>>=\<close>: false as soon as one side is not a number.\<close>

fun dgt :: "double \<Rightarrow> double \<Rightarrow> bool" where
  "dgt NaN y = False"
| "dgt x NaN = False"
| "dgt (Fin p) (Fin q) = (q < p)"
| "dgt PosInf PosInf = False"
| "dgt PosInf y = True"
| "dgt x PosInf = False"
| "dgt NegInf y = False"
| "dgt x NegInf = True"

fun dge :: "double \<Rightarrow> double \<Rightarrow> bool" where
  "dge NaN y = False"
| "dge x NaN = False"
| "dge (Fin p) (Fin q) = (q \<le> p)"
| "dge PosInf y = True"
| "dge x NegInf = True"
| "dge x PosInf = False"
| "dge NegInf y = False"

section \<open>Number.prototype.toFixed\<close>

text \<open>
  The formatters call \<open>p.toFixed(2)\<close>. The model follows the steps of the ECMAScript
  definition: a RangeError for a digit count outside 0..100, the names of the non-finite
  values, the sign taken off first, then the integer \<open>n\<close> nearest to \<open>x * 10^f\<close> (the larger
  one of two), its decimal digits padded with zeros to \<open>f + 1\<close> places, and the point put
  before the last \<open>f\<close> digits. From \<open>10^21\<close> on ECMAScript prints the number as
  \<open>ToString\<close> does, in exponent form with the shortest digits that read back as the same
  double; that function is a property of the binary format and is a parameter here.
\<close>

datatype js_error = RangeError

definition digit_char :: "int \<Rightarrow> char" where
  "digit_char d = char_of (48 + d)"

function digits :: "int \<Rightarrow> string" where
  "digits n = (if n < 10 then [digit_char n] else digits (n div 10) @ [digit_char (n mod 10)])"
  by pat_completeness auto
termination
  by (relation "measure nat") auto

declare digits.simps [simp del]

definition nearest :: "nat \<Rightarrow> rat \<Rightarrow> int" where
  "nearest f x = \<lfloor>x * 10 ^ f + 1 / 2\<rfloor>"

definition fixed_notation :: "nat \<Rightarrow> rat \<Rightarrow> string" where
  "fixed_notation f x =
     (let n = nearest f x;
          m = (if n = 0 then ''0'' else digits n)
      in if f \<noteq> 0
         then (let k = length m;
                   m' = (if k \<le> f then replicate (f + 1 - k) CHR ''0'' @ m else m);
                   k' = (if k \<le> f then f + 1 else k)
               in take (k' - f) m' @ ''.'' @ drop (k' - f) m')
         else m)"

definition toFixed :: "(rat \<Rightarrow> string) \<Rightarrow> int \<Rightarrow> double \<Rightarrow> js_error + string" where
  "toFixed toString f x =
     (if f < 0 \<or> 100 < f then Inl RangeError
      else case x of
             NaN \<Rightarrow> Inr ''NaN''
           | PosInf \<Rightarrow> Inr ''Infinity''
           | NegInf \<Rightarrow> Inr ''-Infinity''
           | Fin q \<Rightarrow>
               (let s = (if q < 0 then ''-'' else '''');
                    a = (if q < 0 then - q else q)
                in if 10 ^ 21 \<le> a then Inr (s @ toString a)
                   else Inr (s @ fixed_notation (nat f) a)))"

section \<open>DeltaCalculator: \<open>pct\<close> and \<open>pctDelta\<close>\<close>

text \<open>
  The reference \<open>yref\<close> is what \<open>prevY\<close> returns: \<open>null\<close> (\<open>None\<close>) or a number. The
  sentinel is the one-character string U+2014, kept as the three bytes of its UTF-8 form.
\<close>

definition sentinel :: string where
  "sentinel = [char_of (0xE2::nat), char_of (0x80::nat), char_of (0x94::nat)]"

definition percent :: "double \<Rightarrow> double \<Rightarrow> double" where
  "percent y yref = dmul (ddiv (dsub y yref) yref) (Fin 100)"

definition pct :: "(rat \<Rightarrow> string) \<Rightarrow> double \<Rightarrow> double option \<Rightarrow> js_error + string" where
  "pct toString y yref =
     (case yref of
        None \<Rightarrow> Inr sentinel
      | Some r \<Rightarrow>
          if \<not> isFinite r \<or> r = Fin 0 then Inr sentinel
          else (let p = percent y r;
                    sign = (if dgt p (Fin 0) then ''+'' else '''')
                in case toFixed toString 2 p of
                     Inl e \<Rightarrow> Inl e
                   | Inr t \<Rightarrow> Inr (sign @ t @ ''%'')))"

definition pctDelta :: "(rat \<Rightarrow> string) \<Rightarrow> double \<Rightarrow> double option \<Rightarrow> js_error + string" where
  "pctDelta toString y yref =
     (case yref of
        None \<Rightarrow> Inr sentinel
      | Some r \<Rightarrow>
          if \<not> isFinite r \<or> r = Fin 0 then Inr sentinel
          else (let p = percent y r;
                    sign = (if dge p (Fin 0) then ''+'' else '''')
                in case toFixed toString 2 p of
                     Inl e \<Rightarrow> Inl e
                   | Inr t \<Rightarrow> Inr (sign @ t @ ''%'')))"

section \<open>Segments and their compilation\<close>

text \<open>
  An anchor value arrives as an arbitrary Python object. The compilers only ever pass it
  to \<open>pd.to_datetime\<close> (timestamps) or to \<open>float\<close> (prices), so a value is modelled by
  what that conversion makes of it: a timestamp with its \<open>.value\<close>, the nanoseconds since
  the epoch, or a float; or a value that the conversion refuses by raising.
\<close>

datatype py_error = DatetimeError | FloatError

datatype timeval = Timestamp int | BadTime

datatype priceval = Number double | BadNumber

fun to_datetime :: "timeval \<Rightarrow> py_error + int" where
  "to_datetime (Timestamp ns) = Inr ns"
| "to_datetime BadTime = Inl DatetimeError"

fun float_py :: "priceval \<Rightarrow> py_error + double" where
  "float_py (Number v) = Inr v"
| "float_py BadNumber = Inl FloatError"

text \<open>\<open>_to_ms\<close>: \<open>int(pd.to_datetime(ts).value // 10**6)\<close>; Python's \<open>//\<close> rounds down, as \<open>div\<close>.\<close>

definition to_ms :: "timeval \<Rightarrow> py_error + int" where
  "to_ms ts = (case to_datetime ts of Inl e \<Rightarrow> Inl e | Inr ns \<Rightarrow> Inr (ns div 10 ^ 6))"

text \<open>
  The dictionary \<open>rec\<close> of \<open>plot_with_prev_deltas\<close>, and one row of the nine columns that
  \<open>_mk_src\<close> fills; the fields carry the keys with the prefix \<open>r_\<close>. A ColumnDataSource
  holds the rows column by column, all columns of one length: the model keeps the list of
  rows, so \<open>d['m'][i]\<close> is \<open>r_m (src ! i)\<close>.
\<close>

record cseg =
  r_x0 :: int
  r_y0 :: double
  r_x1 :: int
  r_y1 :: double
  r_x0ms :: int
  r_x1ms :: int
  r_m :: double
  r_b :: double
  r_x_end :: int

text \<open>The input dictionary of \<open>plot_with_prev_deltas\<close>, keys with the prefix \<open>tl_\<close>.\<close>

record trendline =
  tl_kind :: string
  tl_x0 :: timeval
  tl_y0 :: priceval
  tl_x1 :: timeval
  tl_y1 :: priceval

text \<open>
  The loop of \<open>plot_with_prev_deltas\<close> over \<open>trendlines\<close>, with the two lists
  \<open>res_lines\<close> and \<open>sup_lines\<close> it appends to. All four conversions come before the test
  for a vertical line. An exception leaves the function. The
  loop variable \<open>tl\<close> is \<open>tline\<close> here.
\<close>

fun trendlines_loop ::
  "trendline list \<Rightarrow> cseg list \<Rightarrow> cseg list \<Rightarrow> py_error + (cseg list \<times> cseg list)" where
  "trendlines_loop [] res_lines sup_lines = Inr (res_lines, sup_lines)"
| "trendlines_loop (tline # tls) res_lines sup_lines =
     (case to_ms (tl_x0 tline) of Inl e \<Rightarrow> Inl e | Inr x0ms \<Rightarrow>
     (case to_ms (tl_x1 tline) of Inl e \<Rightarrow> Inl e | Inr x1ms \<Rightarrow>
     (case float_py (tl_y0 tline) of Inl e \<Rightarrow> Inl e | Inr y0 \<Rightarrow>
     (case float_py (tl_y1 tline) of Inl e \<Rightarrow> Inl e | Inr y1 \<Rightarrow>
      if x1ms = x0ms then trendlines_loop tls res_lines sup_lines
      else
        (let m = ddiv (dsub y1 y0) (Fin (of_int (x1ms - x0ms)));
             b = dsub y0 (dmul m (Fin (of_int x0ms)))
         in (case to_datetime (tl_x0 tline) of Inl e \<Rightarrow> Inl e | Inr x0 \<Rightarrow>
            (case to_datetime (tl_x1 tline) of Inl e \<Rightarrow> Inl e | Inr x1 \<Rightarrow>
            (let rec = \<lparr>r_x0 = x0, r_y0 = y0, r_x1 = x1, r_y1 = y1, r_x0ms = x0ms,
                        r_x1ms = x1ms, r_m = m, r_b = b, r_x_end = max x0ms x1ms\<rparr>
             in if tl_kind tline = ''res''
                then trendlines_loop tls (res_lines @ [rec]) sup_lines
                else trendlines_loop tls res_lines (sup_lines @ [rec])))))))))"

text \<open>\<open>_mk_source\<close> turns the rows into columns, with the empty columns for no rows.\<close>

definition mk_source :: "cseg list \<Rightarrow> cseg list" where
  "mk_source recs = (if recs = [] then [] else recs)"

text \<open>The two sources \<open>res_src\<close> and \<open>sup_src\<close> that \<open>plot_with_prev_deltas\<close> builds.\<close>

definition plot_sources :: "trendline list \<Rightarrow> py_error + (cseg list \<times> cseg list)" where
  "plot_sources trendlines =
     (case trendlines_loop trendlines [] [] of
        Inl e \<Rightarrow> Inl e
      | Inr (res_lines, sup_lines) \<Rightarrow> Inr (mk_source res_lines, mk_source sup_lines))"

text \<open>
  \<open>_mk_src\<close> of the add-on, over tuples \<open>(x0, y0, x1, y1)\<close>. Here the test for a vertical
  line comes after the two timestamps and before the prices are converted; in the slope
  \<open>float(y1)\<close> is evaluated before \<open>float(y0)\<close>.
\<close>

type_synonym record_tuple = "timeval \<times> priceval \<times> timeval \<times> priceval"

fun mk_src_loop :: "record_tuple list \<Rightarrow> cseg list \<Rightarrow> py_error + cseg list" where
  "mk_src_loop [] out = Inr out"
| "mk_src_loop ((x0, y0, x1, y1) # records) out =
     (case to_ms x0 of Inl e \<Rightarrow> Inl e | Inr x0ms \<Rightarrow>
     (case to_ms x1 of Inl e \<Rightarrow> Inl e | Inr x1ms \<Rightarrow>
      if x1ms = x0ms then mk_src_loop records out
      else
       (case float_py y1 of Inl e \<Rightarrow> Inl e | Inr fy1 \<Rightarrow>
       (case float_py y0 of Inl e \<Rightarrow> Inl e | Inr fy0 \<Rightarrow>
        (let m = ddiv (dsub fy1 fy0) (Fin (of_int (x1ms - x0ms)));
             b = dsub fy0 (dmul m (Fin (of_int x0ms)))
         in (case to_datetime x0 of Inl e \<Rightarrow> Inl e | Inr t0 \<Rightarrow>
            (case to_datetime x1 of Inl e \<Rightarrow> Inl e | Inr t1 \<Rightarrow>
            mk_src_loop records
              (out @ [\<lparr>r_x0 = t0, r_y0 = fy0, r_x1 = t1, r_y1 = fy1, r_x0ms = x0ms,
                        r_x1ms = x1ms, r_m = m, r_b = b, r_x_end = max x0ms x1ms\<rparr>]))))))))"

definition mk_src :: "record_tuple list \<Rightarrow> py_error + cseg list" where
  "mk_src records = (if records = [] then Inr [] else mk_src_loop records [])"

definition build_sources ::
  "record_tuple list \<Rightarrow> record_tuple list \<Rightarrow> py_error + (cseg list \<times> cseg list)" where
  "build_sources res_segments sup_segments =
     (case mk_src res_segments of
        Inl e \<Rightarrow> Inl e
      | Inr res_src \<Rightarrow>
          (case mk_src sup_segments of
             Inl e \<Rightarrow> Inl e
           | Inr sup_src \<Rightarrow> Inr (res_src, sup_src)))"

section \<open>SegmentIndex and ProjectionEvaluator: \<open>prevY\<close> and \<open>yPrevAtDate\<close>\<close>

text \<open>The value of a row's line at \<open>x\<close>: the expression \<open>d['m'][i] * x + d['b'][i]\<close>.\<close>

definition project :: "cseg \<Rightarrow> double \<Rightarrow> double" where
  "project r x = dadd (dmul (r_m r) x) (r_b r)"

text \<open>
  One pass of the loop body on the pair \<open>(best, yAt)\<close>; \<open>yAt\<close> is \<open>null\<close> (\<open>None\<close>) or a
  number. The two JavaScript functions have the same body.
\<close>

fun prev_step :: "double \<Rightarrow> cseg \<Rightarrow> double \<times> double option \<Rightarrow> double \<times> double option" where
  "prev_step x r (best, yAt) =
     (let x_end = Fin (of_int (r_x_end r))
      in if dge x x_end \<and> dgt x_end best then (x_end, Some (project r x))
         else (best, yAt))"

fun prev_loop :: "cseg list \<Rightarrow> double \<Rightarrow> double \<times> double option \<Rightarrow> double \<times> double option" where
  "prev_loop [] x st = st"
| "prev_loop (r # rs) x st = prev_loop rs x (prev_step x r st)"

definition prevY :: "cseg list \<Rightarrow> double \<Rightarrow> double option" where
  "prevY src x = snd (prev_loop src x (NegInf, None))"

definition yPrevAtDate :: "cseg list \<Rightarrow> double \<Rightarrow> double option" where
  "yPrevAtDate src dateMs = snd (prev_loop src dateMs (NegInf, None))"

text \<open>
  The loop returns the value of the chosen row, not the row. To say which row was chosen,
  \<open>sel_loop\<close> is the same loop with the same test, remembering the row \<open>i\<close> where the
  program stores the value computed from it.
\<close>

fun sel_step :: "double \<Rightarrow> cseg \<Rightarrow> double \<times> cseg option \<Rightarrow> double \<times> cseg option" where
  "sel_step x r (best, chosen) =
     (let x_end = Fin (of_int (r_x_end r))
      in if dge x x_end \<and> dgt x_end best then (x_end, Some r)
         else (best, chosen))"

fun sel_loop :: "cseg list \<Rightarrow> double \<Rightarrow> double \<times> cseg option \<Rightarrow> double \<times> cseg option" where
  "sel_loop [] x st = st"
| "sel_loop (r # rs) x st = sel_loop rs x (sel_step x r st)"

definition mostRecentAt :: "cseg list \<Rightarrow> double \<Rightarrow> cseg option" where
  "mostRecentAt src x = snd (sel_loop src x (NegInf, None))"

section \<open>CursorQueryHandler: the mouse-move callback of \<open>plot_with_prev_deltas\<close>\<close>

text \<open>The Greek capital delta of the panel text, as the two bytes of its UTF-8 form.\<close>

definition Delta :: string where
  "Delta = [char_of (0xCE::nat), char_of (0x94::nat)]"

definition callback ::
  "(rat \<Rightarrow> string) \<Rightarrow> cseg list \<Rightarrow> cseg list \<Rightarrow> double \<Rightarrow> double \<Rightarrow> js_error + string" where
  "callback toString res_src sup_src x y =
     (let yRes = prevY res_src x;
          ySup = prevY sup_src x
      in case pct toString y yRes of
           Inl e \<Rightarrow> Inl e
         | Inr pr \<Rightarrow>
             (case pct toString y ySup of
                Inl e \<Rightarrow> Inl e
              | Inr ps \<Rightarrow>
                  Inr (''<b>'' @ Delta @ '' vs prev RES:</b> '' @ pr @ '' &nbsp; | &nbsp; <b>''
                       @ Delta @ '' vs prev SUP:</b> '' @ ps)))"

section \<open>Segments of the data model, and sample data\<close>

text \<open>
  A Segment of the data model for one category: two anchor points, each a timestamp (in
  nanoseconds) and a price. \<open>raw\<close> is the tuple that \<open>_mk_src\<close> receives for it, \<open>raw_tl\<close>
  the dictionary that \<open>plot_with_prev_deltas\<close> receives for it under a \<open>kind\<close>; \<open>vertical\<close>
  says that the two timestamps fall into the same millisecond, and \<open>anchors\<close> reads the
  anchor points back from a compiled row.
\<close>

type_synonym segment = "int \<times> double \<times> int \<times> double"

definition raw :: "segment \<Rightarrow> record_tuple" where
  "raw s = (case s of (x0, y0, x1, y1) \<Rightarrow> (Timestamp x0, Number y0, Timestamp x1, Number y1))"

definition raw_tl :: "string \<times> segment \<Rightarrow> trendline" where
  "raw_tl ks = (case ks of (k, x0, y0, x1, y1) \<Rightarrow>
     \<lparr>tl_kind = k, tl_x0 = Timestamp x0, tl_y0 = Number y0,
      tl_x1 = Timestamp x1, tl_y1 = Number y1\<rparr>)"

definition vertical :: "segment \<Rightarrow> bool" where
  "vertical s = (case s of (x0, y0, x1, y1) \<Rightarrow> x0 div 10 ^ 6 = x1 div 10 ^ 6)"

definition anchors :: "cseg \<Rightarrow> segment" where
  "anchors r = (r_x0 r, r_y0 r, r_x1 r, r_y1 r)"

text \<open>
  Sample segments: \<open>seg_a\<close> from 29 at 0 ms to 49 at 100 ms; \<open>seg_b\<close> from 23 at 20 ms to 37
  at 90 ms; \<open>seg_c\<close> with its anchors in reverse order, from 10 at 100 ms back to 70 at
  40 ms; \<open>seg_v\<close> with both anchors inside millisecond 5. \<open>row_a\<close>, \<open>row_b\<close> and \<open>row_c\<close> are
  the rows of the first three.
\<close>

definition seg_a :: segment where
  "seg_a = (0, Fin 29, 100000000, Fin 49)"

definition seg_b :: segment where
  "seg_b = (20000000, Fin 23, 90000000, Fin 37)"

definition seg_c :: segment where
  "seg_c = (100000000, Fin 10, 40000000, Fin 70)"

definition seg_v :: segment where
  "seg_v = (5000000, Fin 1, 5999999, Fin 2)"

definition row_a :: cseg where
  "row_a = \<lparr>r_x0 = 0, r_y0 = Fin 29, r_x1 = 100000000, r_y1 = Fin 49, r_x0ms = 0,
            r_x1ms = 100, r_m = Fin (3602879701896397 / 18014398509481984), r_b = Fin 29,
            r_x_end = 100\<rparr>"

definition row_b :: cseg where
  "row_b = \<lparr>r_x0 = 20000000, r_y0 = Fin 23, r_x1 = 90000000, r_y1 = Fin 37, r_x0ms = 20,
            r_x1ms = 90, r_m = Fin (3602879701896397 / 18014398509481984), r_b = Fin 19,
            r_x_end = 90\<rparr>"

definition row_c :: cseg where
  "row_c = \<lparr>r_x0 = 100000000, r_y0 = Fin 10, r_x1 = 40000000, r_y1 = Fin 70, r_x0ms = 100,
            r_x1ms = 40, r_m = Fin (- 1), r_b = Fin 110, r_x_end = 100\<rparr>"

text \<open>
  A CompiledSegment as the data model describes it: both times in milliseconds and not
  equal, the slope \<open>(y1 - y0) / (x1ms - x0ms)\<close>, the intercept \<open>y0 - m * x0ms\<close>, and the
  later of the two times as the key.
\<close>

definition compiled :: "cseg \<Rightarrow> bool" where
  "compiled r =
     (r_x0ms r = r_x0 r div 10 ^ 6 \<and> r_x1ms r = r_x1 r div 10 ^ 6 \<and>
      r_x0ms r \<noteq> r_x1ms r \<and>
      r_m r = ddiv (dsub (r_y1 r) (r_y0 r)) (Fin (of_int (r_x1ms r - r_x0ms r))) \<and>
      r_b r = dsub (r_y0 r) (dmul (r_m r) (Fin (of_int (r_x0ms r)))) \<and>
      r_x_end r = max (r_x0ms r) (r_x1ms r))"

text \<open>
  The segments whose conversion raises: in \<open>plot_with_prev_deltas\<close> any of the four anchor
  values, in \<open>_mk_src\<close> a timestamp, or a price of a segment that is not skipped as
  vertical.
\<close>

definition refused_tl :: "trendline \<Rightarrow> bool" where
  "refused_tl t =
     (tl_x0 t = BadTime \<or> tl_x1 t = BadTime \<or> tl_y0 t = BadNumber \<or> tl_y1 t = BadNumber)"

definition refused :: "record_tuple \<Rightarrow> bool" where
  "refused s = (case s of (x0, y0, x1, y1) \<Rightarrow>
     x0 = BadTime \<or> x1 = BadTime \<or>
     (to_ms x0 \<noteq> to_ms x1 \<and> (y0 = BadNumber \<or> y1 = BadNumber)))"

text \<open>
  The row that one pass of either loop appends for a segment of the data model that is not
  vertical: the expressions of the loop body, with \<open>x0ms\<close> and \<open>x1ms\<close> written out.
\<close>

definition row_of :: "segment \<Rightarrow> cseg" where
  "row_of s = (case s of (x0, y0, x1, y1) \<Rightarrow>
     (let x0ms = x0 div 10 ^ 6;
          x1ms = x1 div 10 ^ 6;
          m = ddiv (dsub y1 y0) (Fin (of_int (x1ms - x0ms)));
          b = dsub y0 (dmul m (Fin (of_int x0ms)))
      in \<lparr>r_x0 = x0, r_y0 = y0, r_x1 = x1, r_y1 = y1, r_x0ms = x0ms, r_x1ms = x1ms,
          r_m = m, r_b = b, r_x_end = max x0ms x1ms\<rparr>))"

text \<open>A tuple and a dictionary whose first price is not a number, on a line from 0 ms to 7 ms.\<close>

definition bad_tuple :: record_tuple where
  "bad_tuple = (Timestamp 0, BadNumber, Timestamp 7000000, Number (Fin 2))"

definition bad_tl :: trendline where
  "bad_tl = \<lparr>tl_kind = ''res'', tl_x0 = Timestamp 0, tl_y0 = BadNumber,
             tl_x1 = Timestamp 7000000, tl_y1 = Number (Fin 2)\<rparr>"

text \<open>
  Two more sample segments: \<open>seg_huge\<close> from \<open>-2^1023\<close> at 1 ms to \<open>2^1023\<close> at 2 ms, both
  finite doubles; \<open>seg_epoch\<close> from the double 101.37 to the double 151.49 over one
  millisecond at an epoch time.
\<close>

definition huge :: rat where
  "huge = 2 ^ 1023"

definition seg_huge :: segment where
  "seg_huge = (1000000, Fin (- huge), 2000000, Fin huge)"

definition seg_epoch :: segment where
  "seg_epoch = (1700000000000000000, Fin (891659949661225 / 8796093022208),
                1700000000001000000, Fin (666260065967145 / 4398046511104))"

section \<open>Properties of the rounding\<close>

lemma bits_pos: "0 < n \<Longrightarrow> bits n = 1 + bits (n div 2)"
  by (subst bits.simps) simp

lemma bits_nonpos: "n \<le> 0 \<Longrightarrow> bits n = 0"
  by (subst bits.simps) simp

lemma floor_rat_numeral: "\<lfloor>numeral a / numeral b :: rat\<rfloor> = numeral a div numeral b"
  using floor_divide_of_int_eq [of "numeral a" "numeral b", where ?'a = rat] by simp

lemmas round_eval = floor_rat_numeral round_double_def ilog2_def round_half_even_def Let_def bits_pos bits_nonpos
  power_int_minus signed_inf_def

lemma bits_bounds:
  "0 < n \<Longrightarrow> 1 \<le> bits n \<and> 2 ^ nat (bits n - 1) \<le> n \<and> n < 2 ^ nat (bits n)"
proof (induction n rule: bits.induct)
  case (1 n)
  show ?case
  proof (cases "n = 1")
    case True
    then show ?thesis by (simp add: bits_pos bits_nonpos)
  next
    case False
    with "1.prems" have m: "0 < n div 2" by linarith
    from "1.IH" "1.prems" m
    have IH: "1 \<le> bits (n div 2)" "2 ^ nat (bits (n div 2) - 1) \<le> n div 2"
      "n div 2 < 2 ^ nat (bits (n div 2))"
      by simp_all
    have b: "bits n = 1 + bits (n div 2)" using "1.prems" by (rule bits_pos)
    have e1: "nat (bits n - 1) = Suc (nat (bits (n div 2) - 1))" using IH(1) b by simp
    have e2: "nat (bits n) = Suc (nat (bits (n div 2)))" using IH(1) b by simp
    have "(2::int) * 2 ^ nat (bits (n div 2) - 1) \<le> 2 * (n div 2)" using IH(2) by simp
    also have "\<dots> \<le> n" by simp
    finally have lo: "2 ^ nat (bits n - 1) \<le> n" by (simp add: e1)
    have "n div 2 + 1 \<le> 2 ^ nat (bits (n div 2))" using IH(3) by simp
    then have "2 * (n div 2) + 2 \<le> 2 * 2 ^ nat (bits (n div 2))" by simp
    moreover have "n < 2 * (n div 2) + 2" by linarith
    ultimately have hi: "n < 2 ^ nat (bits n)" by (simp add: e2)
    from lo hi b IH(1) show ?thesis by simp
  qed
qed

lemma ilog2_bounds:
  assumes "0 < x"
  shows "2 powi (ilog2 x) \<le> x \<and> x < 2 powi (ilog2 x + 1)"
proof (cases "1 \<le> x")
  case True
  define f where "f = \<lfloor>x\<rfloor>"
  have f: "0 < f" using True by (simp add: f_def)
  from bits_bounds [OF f] have b: "1 \<le> bits f" "2 ^ nat (bits f - 1) \<le> f" "f < 2 ^ nat (bits f)"
    by simp_all
  have k: "ilog2 x = bits f - 1" using True by (simp add: ilog2_def f_def)
  have "(2::rat) powi (bits f - 1) = of_int (2 ^ nat (bits f - 1))"
    using b(1) by (simp add: power_int_def)
  also have "\<dots> \<le> of_int f" using b(2) by (simp only: of_int_le_iff)
  also have "\<dots> \<le> x" by (simp add: f_def)
  finally have lo: "2 powi (ilog2 x) \<le> x" by (simp add: k)
  have "f + 1 \<le> 2 ^ nat (bits f)" using b(3) by simp
  then have "(of_int (f + 1) :: rat) \<le> of_int (2 ^ nat (bits f))" by (simp only: of_int_le_iff)
  moreover have "x < of_int (f + 1)" using floor_correct [of x] by (simp add: f_def)
  moreover have "(2::rat) powi (bits f - 1 + 1) = of_int (2 ^ nat (bits f))"
    using b(1) by (simp add: power_int_def)
  ultimately have hi: "x < 2 powi (ilog2 x + 1)" by (simp add: k)
  from lo hi show ?thesis by simp
next
  case False
  define t where "t = 1 / x"
  define f where "f = \<lfloor>t\<rfloor>"
  define j where "j = bits f - 1"
  have t1: "1 < t" using False assms by (simp add: t_def)
  have f: "0 < f" using t1 by (simp add: f_def)
  from bits_bounds [OF f] have b: "1 \<le> bits f" "2 ^ nat (bits f - 1) \<le> f" "f < 2 ^ nat (bits f)"
    by simp_all
  have j0: "0 \<le> j" using b(1) by (simp add: j_def)
  have "(2::rat) powi j = of_int (2 ^ nat (bits f - 1))"
    using b(1) by (simp add: power_int_def j_def)
  also have "\<dots> \<le> of_int f" using b(2) by (simp only: of_int_le_iff)
  also have "\<dots> \<le> t" by (simp add: f_def)
  finally have lo: "2 powi j \<le> t" .
  have "f + 1 \<le> 2 ^ nat (bits f)" using b(3) by simp
  then have "(of_int (f + 1) :: rat) \<le> of_int (2 ^ nat (bits f))" by (simp only: of_int_le_iff)
  moreover have "t < of_int (f + 1)" using floor_correct [of t] by (simp add: f_def)
  moreover have "(2::rat) powi (j + 1) = of_int (2 ^ nat (bits f))"
    using b(1) by (simp add: power_int_def j_def)
  ultimately have hi: "t < 2 powi (j + 1)" by simp
  have pj: "(0::rat) < 2 powi j" "(0::rat) < 2 powi (j + 1)" by simp_all
  have xle: "x \<le> 2 powi (- j)"
    using lo assms pj(1) by (simp add: t_def power_int_minus field_simps)
  have xgt: "2 powi (- j - 1) < x"
  proof -
    have "- j - 1 = - (j + 1)" by simp
    then have "(2::rat) powi (- j - 1) = inverse (2 powi (j + 1))"
      by (simp only: power_int_minus)
    moreover have "inverse (2 powi (j + 1)) < inverse t"
      using hi t1 by (intro less_imp_inverse_less) simp_all
    moreover have "inverse t = x" by (simp add: t_def)
    ultimately show ?thesis by simp
  qed
  have k: "ilog2 x = (if 2 powi (- j) \<le> x then - j else - j - 1)"
    using False by (simp add: ilog2_def Let_def t_def f_def j_def)
  show ?thesis
  proof (cases "2 powi (- j) \<le> x")
    case True
    then have "ilog2 x = - j" by (simp add: k)
    moreover have "x < 2 powi (- j + 1)"
    proof -
      have "(2::rat) powi (- j + 1) = 2 powi (- j) * 2 powi 1"
        by (rule power_int_add) simp
      then have "(2::rat) powi (- j + 1) = 2 powi (- j) * 2" by simp
      moreover have "(0::rat) < 2 powi (- j)" by simp
      ultimately show ?thesis using xle by linarith
    qed
    ultimately show ?thesis using True by simp
  next
    case nle: False
    then have "ilog2 x = - j - 1" by (simp add: k)
    then show ?thesis using xgt nle by simp
  qed
qed

lemma ilog2_unique:
  assumes "0 < x" and "2 powi k \<le> x" and "x < 2 powi (k + 1)"
  shows "ilog2 x = k"
proof -
  from ilog2_bounds [OF assms(1)]
  have b: "2 powi (ilog2 x) \<le> x" "x < 2 powi (ilog2 x + 1)" by simp_all
  have "\<not> ilog2 x + 1 \<le> k"
  proof
    assume "ilog2 x + 1 \<le> k"
    then have "(2::rat) powi (ilog2 x + 1) \<le> 2 powi k" by (rule power_int_increasing) simp
    with assms(2) b(2) show False by linarith
  qed
  moreover have "\<not> k + 1 \<le> ilog2 x"
  proof
    assume "k + 1 \<le> ilog2 x"
    then have "(2::rat) powi (k + 1) \<le> 2 powi (ilog2 x)" by (rule power_int_increasing) simp
    with assms(3) b(1) show False by linarith
  qed
  ultimately show ?thesis by simp
qed

lemma round_half_even_error: "\<bar>of_int (round_half_even q) - q\<bar> \<le> 1 / 2"
proof -
  have "of_int \<lfloor>q\<rfloor> \<le> q" "q < of_int \<lfloor>q\<rfloor> + 1"
    using floor_correct [of q] by simp_all
  then show ?thesis
    by (auto simp: round_half_even_def Let_def abs_le_iff)
qed

lemma round_double_not_NaN: "round_double x \<noteq> NaN"
  by (simp add: round_double_def Let_def signed_inf_def)

lemma round_double_zero: "round_double 0 = Fin 0"
  by (simp add: round_double_def)

lemma round_double_overflow:
  assumes "2 powi 1024 \<le> \<bar>x\<bar>"
  shows "round_double x = signed_inf (x < 0)"
proof -
  have p: "(0::rat) < 2 powi 1024" by simp
  with assms have a: "0 < \<bar>x\<bar>" by linarith
  then have x0: "x \<noteq> 0" by simp
  from ilog2_bounds [OF a] assms have "(2::rat) powi 1024 < 2 powi (ilog2 \<bar>x\<bar> + 1)" by linarith
  have "\<not> ilog2 \<bar>x\<bar> + 1 \<le> 1024"
  proof
    assume "ilog2 \<bar>x\<bar> + 1 \<le> 1024"
    then have "(2::rat) powi (ilog2 \<bar>x\<bar> + 1) \<le> 2 powi 1024" by (rule power_int_increasing) simp
    with \<open>(2::rat) powi 1024 < 2 powi (ilog2 \<bar>x\<bar> + 1)\<close> show False by linarith
  qed
  then have h: "971 < max (ilog2 \<bar>x\<bar> - 52) (- 1074)" by simp
  show ?thesis
    unfolding round_double_def Let_def by (simp only: h x0 if_False if_True simp_thms)
qed

lemma round_double_error:
  assumes "round_double x = Fin v"
  shows "\<bar>v - x\<bar> \<le> unit_roundoff * \<bar>x\<bar> + eta"
proof (cases "x = 0")
  case True
  with assms show ?thesis by (simp add: round_double_def unit_roundoff_def eta_def)
next
  case False
  define a where "a = \<bar>x\<bar>"
  define k where "k = ilog2 a"
  define e where "e = max (k - 52) (- 1074)"
  define n where "n = round_half_even (a / 2 powi e)"
  have a0: "0 < a" using False by (simp add: a_def)
  have pe: "(0::rat) < 2 powi e" by simp
  have v: "v = (if x < 0 then - (of_int n * 2 powi e) else of_int n * 2 powi e)"
    using assms False
    by (simp add: round_double_def Let_def a_def k_def e_def n_def signed_inf_def
        split: if_splits)
  have "\<bar>v - x\<bar> = \<bar>of_int n * 2 powi e - a\<bar>"
    by (cases "x < 0") (simp_all add: v a_def abs_minus_commute)
  also have "of_int n * 2 powi e - a = (of_int n - a / 2 powi e) * 2 powi e"
    using pe by (simp add: field_simps)
  also have "\<bar>\<dots>\<bar> = \<bar>of_int n - a / 2 powi e\<bar> * 2 powi e"
    using pe by (simp add: abs_mult)
  also have "\<dots> \<le> 1 / 2 * 2 powi e"
    using round_half_even_error [of "a / 2 powi e"] pe
    by (intro mult_right_mono) (simp_all add: n_def)
  finally have main: "\<bar>v - x\<bar> \<le> 2 powi e / 2" by simp
  show ?thesis
  proof (cases "- 1074 \<le> k - 52")
    case True
    then have "e = k - 52" by (simp add: e_def)
    have "(2::rat) powi (k - 52) = 2 powi k / 2 powi 52"
      by (rule power_int_diff) simp
    then have "(2::rat) powi e / 2 = 2 powi k * unit_roundoff"
      by (simp add: unit_roundoff_def \<open>e = k - 52\<close>)
    also have "\<dots> \<le> a * unit_roundoff"
      using ilog2_bounds [OF a0] by (intro mult_right_mono) (simp_all add: k_def unit_roundoff_def)
    finally have "\<bar>v - x\<bar> \<le> unit_roundoff * \<bar>x\<bar>" using main by (simp add: a_def mult.commute)
    moreover have "0 \<le> eta" by (simp add: eta_def)
    ultimately show ?thesis by linarith
  next
    case False
    then have "e = - 1074" by (simp add: e_def)
    then have "(2::rat) powi e / 2 = eta" by (simp add: eta_def power_int_minus)
    with main have "\<bar>v - x\<bar> \<le> eta" by simp
    moreover have "0 \<le> unit_roundoff * \<bar>x\<bar>" by (simp add: unit_roundoff_def)
    ultimately show ?thesis by linarith
  qed
qed

lemma unit_roundoff_numeral: "unit_roundoff = 1 / 9007199254740992"
  by (simp add: unit_roundoff_def)

lemma eta_nonneg: "0 \<le> eta"
  by (simp add: eta_def)

text \<open>A rounded product added to a double and rounded again.\<close>

lemma two_roundings:
  assumes c: "\<bar>c - z\<bar> \<le> unit_roundoff * \<bar>z\<bar> + eta"
    and v: "\<bar>v - (c + b)\<bar> \<le> unit_roundoff * \<bar>c + b\<bar> + eta"
  shows "\<bar>v - (z + b)\<bar> \<le> unit_roundoff * (3 * \<bar>z\<bar> + \<bar>b\<bar>) + 3 * eta"
proof -
  define ec where "ec = \<bar>c - z\<bar>"
  define ev where "ev = \<bar>v - (c + b)\<bar>"
  have e0: "0 \<le> eta" by (rule eta_nonneg)
  have 1: "\<bar>c + b\<bar> \<le> \<bar>z\<bar> + \<bar>b\<bar> + ec" unfolding ec_def by linarith
  have 2: "\<bar>v - (z + b)\<bar> \<le> ev + ec" unfolding ev_def ec_def by linarith
  have 3: "ec \<le> \<bar>z\<bar> / 9007199254740992 + eta"
    using c by (simp add: ec_def unit_roundoff_numeral)
  have 4: "ev \<le> \<bar>c + b\<bar> / 9007199254740992 + eta"
    using v by (simp add: ev_def unit_roundoff_numeral)
  have z: "0 \<le> \<bar>z\<bar>" "0 \<le> \<bar>b\<bar>" by simp_all
  have "\<bar>v - (z + b)\<bar> \<le> 3 * \<bar>z\<bar> / 9007199254740992 + \<bar>b\<bar> / 9007199254740992 + 3 * eta"
    using 1 2 3 4 e0 z by linarith
  then show ?thesis by (simp add: unit_roundoff_numeral algebra_simps add_divide_distrib)
qed

lemma anchor_bounds:
  fixes p0 p1 ds m d c0 c1 b P0 P1 x0 x1 :: rat
  assumes d: "d = x1 - x0" "d \<noteq> 0"
    and r_ds: "\<bar>ds - (p1 - p0)\<bar> \<le> unit_roundoff * \<bar>p1 - p0\<bar> + eta"
    and r_m: "\<bar>m - ds / d\<bar> \<le> unit_roundoff * \<bar>ds / d\<bar> + eta"
    and r_c0: "\<bar>c0 - m * x0\<bar> \<le> unit_roundoff * \<bar>m * x0\<bar> + eta"
    and r_b: "\<bar>b - (p0 - c0)\<bar> \<le> unit_roundoff * \<bar>p0 - c0\<bar> + eta"
    and r_P0: "\<bar>P0 - (c0 + b)\<bar> \<le> unit_roundoff * \<bar>c0 + b\<bar> + eta"
    and r_c1: "\<bar>c1 - m * x1\<bar> \<le> unit_roundoff * \<bar>m * x1\<bar> + eta"
    and r_P1: "\<bar>P1 - (c1 + b)\<bar> \<le> unit_roundoff * \<bar>c1 + b\<bar> + eta"
  shows "\<bar>P0 - p0\<bar> \<le> 3 * unit_roundoff * (\<bar>p0\<bar> + \<bar>m * x0\<bar>) + 3 * eta"
    and "\<bar>P1 - p1\<bar> \<le> 4 * unit_roundoff * (\<bar>p0\<bar> + \<bar>p1\<bar> + \<bar>m * x0\<bar> + \<bar>m * x1\<bar>)
                      + (2 * \<bar>d\<bar> + 6) * eta"
proof -
  define z0 where "z0 = m * x0"
  define z1 where "z1 = m * x1"
  define md where "md = m * d"
  define a0 where "a0 = \<bar>p0\<bar>"
  define a1 where "a1 = \<bar>p1\<bar>"
  define t0 where "t0 = \<bar>z0\<bar>"
  define t1 where "t1 = \<bar>z1\<bar>"
  define dd where "dd = eta * \<bar>d\<bar>"
  define e_ds where "e_ds = \<bar>ds - (p1 - p0)\<bar>"
  define e_md where "e_md = \<bar>md - ds\<bar>"
  define e_c0 where "e_c0 = \<bar>c0 - z0\<bar>"
  define e_c1 where "e_c1 = \<bar>c1 - z1\<bar>"
  define e_b where "e_b = \<bar>b - (p0 - c0)\<bar>"
  have e0: "0 \<le> eta" by (rule eta_nonneg)
  have nn: "0 \<le> a0" "0 \<le> a1" "0 \<le> t0" "0 \<le> t1" "0 \<le> dd"
    by (simp_all add: a0_def a1_def t0_def t1_def dd_def e0)
  have zz: "z1 - z0 = md"
    by (simp add: z0_def z1_def md_def d(1) algebra_simps)
  \<comment> \<open>the slope, multiplied out\<close>
  have "\<bar>m - ds / d\<bar> * \<bar>d\<bar> \<le> (unit_roundoff * \<bar>ds / d\<bar> + eta) * \<bar>d\<bar>"
    using r_m by (intro mult_right_mono) simp_all
  moreover have "\<bar>m - ds / d\<bar> * \<bar>d\<bar> = \<bar>md - ds\<bar>"
    using d(2) by (simp add: md_def abs_mult [symmetric] field_simps)
  moreover have "(unit_roundoff * \<bar>ds / d\<bar> + eta) * \<bar>d\<bar> = unit_roundoff * \<bar>ds\<bar> + eta * \<bar>d\<bar>"
    using d(2) by (simp add: abs_divide field_simps)
  ultimately have b_md: "e_md \<le> \<bar>ds\<bar> / 9007199254740992 + dd"
    by (simp add: e_md_def dd_def unit_roundoff_numeral)
  have b_ds: "e_ds \<le> \<bar>p1 - p0\<bar> / 9007199254740992 + eta"
    using r_ds by (simp add: e_ds_def unit_roundoff_numeral)
  have b_c0: "e_c0 \<le> t0 / 9007199254740992 + eta"
    using r_c0 by (simp add: e_c0_def t0_def z0_def unit_roundoff_numeral)
  have b_c1: "e_c1 \<le> t1 / 9007199254740992 + eta"
    using r_c1 by (simp add: e_c1_def t1_def z1_def unit_roundoff_numeral)
  have b_b: "e_b \<le> \<bar>p0 - c0\<bar> / 9007199254740992 + eta"
    using r_b by (simp add: e_b_def unit_roundoff_numeral)
  have b_P0: "\<bar>P0 - (c0 + b)\<bar> \<le> \<bar>c0 + b\<bar> / 9007199254740992 + eta"
    using r_P0 by (simp add: unit_roundoff_numeral)
  have b_P1: "\<bar>P1 - (c1 + b)\<bar> \<le> \<bar>c1 + b\<bar> / 9007199254740992 + eta"
    using r_P1 by (simp add: unit_roundoff_numeral)
  \<comment> \<open>sizes of the intermediate results\<close>
  have s1: "\<bar>p1 - p0\<bar> \<le> a0 + a1" unfolding a0_def a1_def by linarith
  have s2: "\<bar>ds\<bar> \<le> a0 + a1 + e_ds" unfolding a0_def a1_def e_ds_def by linarith
  have s3: "\<bar>p0 - c0\<bar> \<le> a0 + t0 + e_c0" unfolding a0_def t0_def e_c0_def by linarith
  have s4: "\<bar>c0 + b\<bar> \<le> a0 + e_b" unfolding a0_def e_b_def by linarith
  have s5: "\<bar>P0 - p0\<bar> \<le> \<bar>P0 - (c0 + b)\<bar> + e_b" unfolding e_b_def by linarith
  have "c1 + b - p1 = (c1 - z1) + (md - ds) + (ds - (p1 - p0)) - (c0 - z0) + (b - (p0 - c0))"
    using zz by simp
  then have s6: "\<bar>c1 + b - p1\<bar> \<le> e_c1 + e_md + e_ds + e_c0 + e_b"
    unfolding e_c1_def e_md_def e_ds_def e_c0_def e_b_def by linarith
  have s7: "\<bar>c1 + b\<bar> \<le> a1 + \<bar>c1 + b - p1\<bar>" unfolding a1_def by linarith
  have s8: "\<bar>P1 - p1\<bar> \<le> \<bar>P1 - (c1 + b)\<bar> + \<bar>c1 + b - p1\<bar>" by linarith
  define w0 where "w0 = \<bar>P0 - (c0 + b)\<bar>"
  define w1 where "w1 = \<bar>P1 - (c1 + b)\<bar>"
  define g where "g = \<bar>c1 + b - p1\<bar>"
  define h0 where "h0 = \<bar>c0 + b\<bar>"
  define h1 where "h1 = \<bar>c1 + b\<bar>"
  define k0 where "k0 = \<bar>p0 - c0\<bar>"
  define k1 where "k1 = \<bar>p1 - p0\<bar>"
  define k2 where "k2 = \<bar>ds\<bar>"
  note facts = b_md b_ds b_c0 b_c1 b_b b_P0 b_P1 s1 s2 s3 s4 s5 s6 s7 s8
  note f = facts [folded w0_def w1_def g_def h0_def h1_def k0_def k1_def k2_def]
  have start: "\<bar>P0 - p0\<bar> \<le> 3 * a0 / 9007199254740992 + 3 * t0 / 9007199254740992 + 3 * eta"
    using f nn e0 by linarith
  have end': "\<bar>P1 - p1\<bar> \<le> 4 * a0 / 9007199254740992 + 4 * a1 / 9007199254740992
      + 4 * t0 / 9007199254740992 + 4 * t1 / 9007199254740992 + 2 * dd + 6 * eta"
    using f nn e0 by linarith
  show "\<bar>P0 - p0\<bar> \<le> 3 * unit_roundoff * (\<bar>p0\<bar> + \<bar>m * x0\<bar>) + 3 * eta"
    using start
    by (simp add: unit_roundoff_numeral a0_def t0_def z0_def algebra_simps add_divide_distrib)
  show "\<bar>P1 - p1\<bar> \<le> 4 * unit_roundoff * (\<bar>p0\<bar> + \<bar>p1\<bar> + \<bar>m * x0\<bar> + \<bar>m * x1\<bar>)
                      + (2 * \<bar>d\<bar> + 6) * eta"
    using end'
    by (simp add: unit_roundoff_numeral a0_def a1_def t0_def t1_def z0_def z1_def
        dd_def algebra_simps add_divide_distrib)
qed

section \<open>Properties of the number formatting\<close>

lemma digits_small: "n < 10 \<Longrightarrow> digits n = [digit_char n]"
  by (subst digits.simps) simp

lemma digits_step: "10 \<le> n \<Longrightarrow> digits n = digits (n div 10) @ [digit_char (n mod 10)]"
  by (subst digits.simps) simp

lemma digits_not_Nil: "digits n \<noteq> []"
  by (subst digits.simps) simp

lemma digits_hundred:
  assumes "100 \<le> n"
  shows "digits n = digits (n div 100) @ [digit_char (n mod 100 div 10), digit_char (n mod 10)]"
proof -
  have a: "digits n = digits (n div 10) @ [digit_char (n mod 10)]"
    using assms by (simp add: digits_step)
  have "10 \<le> n div 10" using assms by linarith
  then have b: "digits (n div 10) = digits (n div 10 div 10) @ [digit_char (n div 10 mod 10)]"
    by (rule digits_step)
  have c: "n div 10 div 10 = n div 100" by (simp add: div_mult2_eq[symmetric])
  have "n mod 100 = 10 * (n div 10 mod 10) + n mod 10"
    using zmod_zmult2_eq[of 10 n 10] by simp
  then have d: "n div 10 mod 10 = n mod 100 div 10" by simp
  show ?thesis unfolding a b c d by simp
qed

lemma digit_char_0: "digit_char 0 = CHR ''0''"
  by code_simp

lemma nearest_nonneg: "0 \<le> x \<Longrightarrow> 0 \<le> nearest f x"
  by (simp add: nearest_def)

lemma fixed_notation_two:
  assumes "0 \<le> x"
  shows "fixed_notation 2 x =
    digits (nearest 2 x div 100) @ ''.'' @
      [digit_char (nearest 2 x mod 100 div 10), digit_char (nearest 2 x mod 10)]"
proof -
  define n where "n = nearest 2 x"
  have n0: "0 \<le> n" using assms by (simp add: n_def nearest_nonneg)
  consider "n = 0" | "0 < n" "n < 10" | "10 \<le> n" "n < 100" | "100 \<le> n"
    using n0 by linarith
  then have "fixed_notation 2 x =
    digits (n div 100) @ ''.'' @ [digit_char (n mod 100 div 10), digit_char (n mod 10)]"
  proof cases
    case 1
    then show ?thesis
      by (simp add: fixed_notation_def n_def[symmetric] Let_def digits_small digit_char_0)
  next
    case 2
    then show ?thesis
      by (simp add: fixed_notation_def n_def[symmetric] Let_def digits_small digit_char_0)
  next
    case 3
    then have "digits n = [digit_char (n div 10), digit_char (n mod 10)]"
      by (simp add: digits_step digits_small)
    moreover have "n div 100 = 0" "n mod 100 = n" using 3 by simp_all
    ultimately show ?thesis using 3
      by (simp add: fixed_notation_def n_def[symmetric] Let_def digits_small digit_char_0)
  next
    case 4
    then have "digits n = digits (n div 100) @ [digit_char (n mod 100 div 10), digit_char (n mod 10)]"
      by (rule digits_hundred)
    then show ?thesis using 4
      by (simp add: fixed_notation_def n_def[symmetric] Let_def digits_not_Nil)
  qed
  then show ?thesis by (simp add: n_def)
qed

lemma nearest_close: "\<bar>of_int (nearest 2 x) / 100 - x\<bar> \<le> 1 / 200"
proof -
  have "of_int (nearest 2 x) \<le> x * 100 + 1 / 2" "x * 100 + 1 / 2 < of_int (nearest 2 x) + 1"
    by (simp_all add: nearest_def) linarith+
  then show ?thesis by linarith
qed

lemma toFixed_two_Fin:
  "\<bar>q\<bar> < 10 ^ 21 \<Longrightarrow>
   toFixed ts 2 (Fin q) = Inr ((if q < 0 then ''-'' else '''') @ fixed_notation 2 \<bar>q\<bar>)"
  by (simp add: toFixed_def Let_def abs_if)


lemma toFixed_two_total: "\<exists>t. toFixed ts 2 p = Inr t"
  by (cases p) (simp_all add: toFixed_def Let_def)

lemma pct_total: "\<exists>s. pct ts y yref = Inr s"
proof -
  obtain t where "toFixed ts 2 (percent y (the yref)) = Inr t"
    using toFixed_two_total by blast
  then show ?thesis
    by (cases yref) (simp_all add: pct_def Let_def)
qed

lemma pctDelta_total: "\<exists>s. pctDelta ts y yref = Inr s"
proof -
  obtain t where "toFixed ts 2 (percent y (the yref)) = Inr t"
    using toFixed_two_total by blast
  then show ?thesis
    by (cases yref) (simp_all add: pctDelta_def Let_def)
qed

lemma toFixed_two_large:
  "10 ^ 21 \<le> \<bar>q\<bar> \<Longrightarrow>
   toFixed ts 2 (Fin q) = Inr ((if q < 0 then ''-'' else '''') @ ts \<bar>q\<bar>)"
  by (simp add: toFixed_def Let_def abs_if)

lemma dadd_not_NaN: "dadd (Fin p) (Fin q) \<noteq> NaN"
  by (simp add: round_double_not_NaN)

lemma ddiv_not_NaN: "x \<noteq> NaN \<Longrightarrow> q \<noteq> 0 \<Longrightarrow> ddiv x (Fin q) \<noteq> NaN"
  by (cases x) (simp_all add: round_double_not_NaN signed_inf_def)

lemma dmul_not_NaN: "x \<noteq> NaN \<Longrightarrow> q \<noteq> 0 \<Longrightarrow> dmul x (Fin q) \<noteq> NaN"
  by (cases x) (simp_all add: round_double_not_NaN signed_inf_def)

lemma percent_not_NaN: "r \<noteq> 0 \<Longrightarrow> percent (Fin y) (Fin r) \<noteq> NaN"
  unfolding percent_def dsub_def dneg.simps
  by (intro dmul_not_NaN ddiv_not_NaN dadd_not_NaN) simp_all

lemma pct_percent_Fin:
  assumes "r \<noteq> 0" and "percent (Fin y) (Fin r) = Fin p" and "\<bar>p\<bar> < 10 ^ 21"
  shows "pct ts (Fin y) (Some (Fin r)) =
    Inr ((if 0 < p then ''+'' else '''') @ (if p < 0 then ''-'' else '''') @
         fixed_notation 2 \<bar>p\<bar> @ ''%'')"
  using assms by (simp add: pct_def toFixed_two_Fin Let_def)

lemma pctDelta_percent_Fin:
  assumes "r \<noteq> 0" and "percent (Fin y) (Fin r) = Fin p" and "\<bar>p\<bar> < 10 ^ 21"
  shows "pctDelta ts (Fin y) (Some (Fin r)) =
    Inr ((if 0 \<le> p then ''+'' else '''') @ (if p < 0 then ''-'' else '''') @
         fixed_notation 2 \<bar>p\<bar> @ ''%'')"
  using assms by (simp add: pctDelta_def toFixed_two_Fin Let_def)

lemma pct_percent_large:
  assumes "r \<noteq> 0" and "percent (Fin y) (Fin r) = Fin p" and "10 ^ 21 \<le> \<bar>p\<bar>"
  shows "pct ts (Fin y) (Some (Fin r)) = Inr ((if 0 < p then ''+'' else ''-'') @ ts \<bar>p\<bar> @ ''%'')"
    and "pctDelta ts (Fin y) (Some (Fin r)) =
           Inr ((if 0 < p then ''+'' else ''-'') @ ts \<bar>p\<bar> @ ''%'')"
proof -
  have t: "toFixed ts 2 (Fin p) = Inr ((if p < 0 then ''-'' else '''') @ ts \<bar>p\<bar>)"
    using assms(3) by (rule toFixed_two_large)
  have p0: "p \<noteq> 0" using assms(3) by auto
  show "pct ts (Fin y) (Some (Fin r)) = Inr ((if 0 < p then ''+'' else ''-'') @ ts \<bar>p\<bar> @ ''%'')"
    using assms(1,2) p0 by (simp add: pct_def Let_def t)
  show "pctDelta ts (Fin y) (Some (Fin r)) =
           Inr ((if 0 < p then ''+'' else ''-'') @ ts \<bar>p\<bar> @ ''%'')"
    using assms(1,2) p0 by (auto simp: pctDelta_def Let_def t)
qed

lemma pct_percent_infinite:
  assumes "r \<noteq> 0"
  shows "percent y (Fin r) = PosInf \<Longrightarrow> pct ts y (Some (Fin r)) = Inr ''+Infinity%''"
    and "percent y (Fin r) = PosInf \<Longrightarrow> pctDelta ts y (Some (Fin r)) = Inr ''+Infinity%''"
    and "percent y (Fin r) = NegInf \<Longrightarrow> pct ts y (Some (Fin r)) = Inr ''-Infinity%''"
    and "percent y (Fin r) = NegInf \<Longrightarrow> pctDelta ts y (Some (Fin r)) = Inr ''-Infinity%''"
  using assms by (simp_all add: pct_def pctDelta_def Let_def toFixed_def)

lemma pct_percent_NaN:
  assumes "isFinite r" and "r \<noteq> Fin 0"
  shows "pct ts NaN (Some r) = Inr ''NaN%''" and "pctDelta ts NaN (Some r) = Inr ''NaN%''"
  using assms by (simp_all add: pct_def pctDelta_def percent_def dsub_def Let_def toFixed_def)

text \<open>Sums at and above \<open>2^1024\<close>, here in the percentage of \<open>2^1023\<close> against \<open>-2^1023\<close>.\<close>

lemma percent_overflow: "percent (Fin (2 ^ 1023)) (Fin (- (2 ^ 1023))) = NegInf"
proof -
  have "round_double (2 ^ 1023 + 2 ^ 1023) = signed_inf False"
    using round_double_overflow [of "2 ^ 1023 + 2 ^ 1023"] by simp
  then show ?thesis
    by (simp add: percent_def dsub_def signed_inf_def)
qed

lemma pct_sentinel:
  "yref = None \<or> (\<exists>r. yref = Some r \<and> (\<not> isFinite r \<or> r = Fin 0)) \<Longrightarrow>
   pct ts y yref = Inr sentinel"
  by (auto simp: pct_def)

lemma pctDelta_sentinel:
  "yref = None \<or> (\<exists>r. yref = Some r \<and> (\<not> isFinite r \<or> r = Fin 0)) \<Longrightarrow>
   pctDelta ts y yref = Inr sentinel"
  by (auto simp: pctDelta_def)

lemma last_sentinel: "last sentinel \<noteq> CHR ''%''"
  by (simp add: sentinel_def) code_simp

lemma pct_computed_not_sentinel:
  assumes "yref = Some r" "isFinite r" "r \<noteq> Fin 0"
  shows "pct ts y yref \<noteq> Inr sentinel"
proof
  assume eq: "pct ts y yref = Inr sentinel"
  obtain t where t: "toFixed ts 2 (percent y r) = Inr t"
    using toFixed_two_total by blast
  define s where "s = (if dgt (percent y r) (Fin 0) then ''+'' else '''') @ t @ ''%''"
  have "pct ts y yref = Inr s"
    using assms t by (simp add: pct_def Let_def s_def)
  with eq have "s = sentinel" by simp
  moreover have "last s = CHR ''%''" by (simp add: s_def)
  ultimately show False using last_sentinel by simp
qed

lemma pctDelta_computed_not_sentinel:
  assumes "yref = Some r" "isFinite r" "r \<noteq> Fin 0"
  shows "pctDelta ts y yref \<noteq> Inr sentinel"
proof
  assume eq: "pctDelta ts y yref = Inr sentinel"
  obtain t where t: "toFixed ts 2 (percent y r) = Inr t"
    using toFixed_two_total by blast
  define s where "s = (if dge (percent y r) (Fin 0) then ''+'' else '''') @ t @ ''%''"
  have "pctDelta ts y yref = Inr s"
    using assms t by (simp add: pctDelta_def Let_def s_def)
  with eq have "s = sentinel" by simp
  moreover have "last s = CHR ''%''" by (simp add: s_def)
  ultimately show False using last_sentinel by simp
qed

section \<open>DeltaCalculator\<close>

text \<open>
  C2, as the code has it. For a finite observed value \<open>y\<close> and a finite reference \<open>r\<close>
  other than zero, both formatters print the percentage as double arithmetic computes it,
  \<open>percent\<close>: the difference, the quotient and the product by 100 each rounded to a
  double. It is never NaN. When it is a finite \<open>p\<close> below \<open>10^21\<close> in size, the text is
  \<open>p\<close> to two decimal places with a percent sign: with \<open>n\<close> the number of hundredths
  nearest to \<open>|p|\<close> (so \<open>n / 100\<close> is within half a hundredth of \<open>|p|\<close>), the digits of
  \<open>n div 100\<close>, a point, the two digits of \<open>n mod 100\<close> and \<open>%\<close>, after \<open>-\<close> for a
  negative \<open>p\<close> and \<open>+\<close> for a positive one. From \<open>10^21\<close> on the digits are those of
  \<open>ToString\<close>, and when the arithmetic has overflowed the text is \<open>+Infinity%\<close> or
  \<open>-Infinity%\<close>. Observed 110 against 100 gives \<open>+10.00%\<close>, 90 against 100 gives
  \<open>-10.00%\<close>, and a reference of zero gives the sentinel whatever is observed.
\<close>

theorem delta_percentage_as_computed:
  "(r \<noteq> 0 \<longrightarrow> percent (Fin y) (Fin r) \<noteq> NaN) \<and>
   (r \<noteq> 0 \<and> percent (Fin y) (Fin r) = Fin p \<and> \<bar>p\<bar> < 10 ^ 21 \<longrightarrow>
     (let n = \<lfloor>\<bar>p\<bar> * 10 ^ 2 + 1 / 2\<rfloor>;
          places = digits (n div 100) @ ''.'' @
                   [digit_char (n mod 100 div 10), digit_char (n mod 10)] @ ''%''
      in \<bar>of_int n / 100 - \<bar>p\<bar>\<bar> \<le> 1 / 200 \<and>
         pct ts (Fin y) (Some (Fin r)) =
           Inr ((if 0 < p then ''+'' else if p < 0 then ''-'' else '''') @ places) \<and>
         pctDelta ts (Fin y) (Some (Fin r)) =
           Inr ((if 0 \<le> p then ''+'' else ''-'') @ places))) \<and>
   (r \<noteq> 0 \<and> percent (Fin y) (Fin r) = Fin p \<and> 10 ^ 21 \<le> \<bar>p\<bar> \<longrightarrow>
      pct ts (Fin y) (Some (Fin r)) = Inr ((if 0 < p then ''+'' else ''-'') @ ts \<bar>p\<bar> @ ''%'') \<and>
      pctDelta ts (Fin y) (Some (Fin r)) =
        Inr ((if 0 < p then ''+'' else ''-'') @ ts \<bar>p\<bar> @ ''%'')) \<and>
   (r \<noteq> 0 \<and> percent (Fin y) (Fin r) = PosInf \<longrightarrow>
      pct ts (Fin y) (Some (Fin r)) = Inr ''+Infinity%'' \<and>
      pctDelta ts (Fin y) (Some (Fin r)) = Inr ''+Infinity%'') \<and>
   (r \<noteq> 0 \<and> percent (Fin y) (Fin r) = NegInf \<longrightarrow>
      pct ts (Fin y) (Some (Fin r)) = Inr ''-Infinity%'' \<and>
      pctDelta ts (Fin y) (Some (Fin r)) = Inr ''-Infinity%'') \<and>
   pct ts (Fin 110) (Some (Fin 100)) = Inr ''+10.00%'' \<and>
   pctDelta ts (Fin 110) (Some (Fin 100)) = Inr ''+10.00%'' \<and>
   pct ts (Fin 90) (Some (Fin 100)) = Inr ''-10.00%'' \<and>
   pctDelta ts (Fin 90) (Some (Fin 100)) = Inr ''-10.00%'' \<and>
   pct ts observed (Some (Fin 0)) = Inr sentinel \<and>
   pctDelta ts observed (Some (Fin 0)) = Inr sentinel"
proof -
  have nan: "r \<noteq> 0 \<longrightarrow> percent (Fin y) (Fin r) \<noteq> NaN"
    by (simp add: percent_not_NaN)
  have general: "r \<noteq> 0 \<and> percent (Fin y) (Fin r) = Fin p \<and> \<bar>p\<bar> < 10 ^ 21 \<longrightarrow>
     (let n = \<lfloor>\<bar>p\<bar> * 10 ^ 2 + 1 / 2\<rfloor>;
          places = digits (n div 100) @ ''.'' @
                   [digit_char (n mod 100 div 10), digit_char (n mod 10)] @ ''%''
      in \<bar>of_int n / 100 - \<bar>p\<bar>\<bar> \<le> 1 / 200 \<and>
         pct ts (Fin y) (Some (Fin r)) =
           Inr ((if 0 < p then ''+'' else if p < 0 then ''-'' else '''') @ places) \<and>
         pctDelta ts (Fin y) (Some (Fin r)) =
           Inr ((if 0 \<le> p then ''+'' else ''-'') @ places))"
  proof
    assume h: "r \<noteq> 0 \<and> percent (Fin y) (Fin r) = Fin p \<and> \<bar>p\<bar> < 10 ^ 21"
    have n: "\<lfloor>\<bar>p\<bar> * 10 ^ 2 + 1 / 2\<rfloor> = nearest 2 \<bar>p\<bar>"
      by (simp add: nearest_def)
    have close: "\<bar>of_int (nearest 2 \<bar>p\<bar>) / 100 - \<bar>p\<bar>\<bar> \<le> 1 / 200"
      by (rule nearest_close)
    have fixed: "fixed_notation 2 \<bar>p\<bar> =
      digits (nearest 2 \<bar>p\<bar> div 100) @ ''.'' @
        [digit_char (nearest 2 \<bar>p\<bar> mod 100 div 10), digit_char (nearest 2 \<bar>p\<bar> mod 10)]"
      by (rule fixed_notation_two) simp
    have a: "pct ts (Fin y) (Some (Fin r)) =
      Inr ((if 0 < p then ''+'' else '''') @ (if p < 0 then ''-'' else '''') @
           fixed_notation 2 \<bar>p\<bar> @ ''%'')"
      using h by (intro pct_percent_Fin) simp_all
    have b: "pctDelta ts (Fin y) (Some (Fin r)) =
      Inr ((if 0 \<le> p then ''+'' else '''') @ (if p < 0 then ''-'' else '''') @
           fixed_notation 2 \<bar>p\<bar> @ ''%'')"
      using h by (intro pctDelta_percent_Fin) simp_all
    show "let n = \<lfloor>\<bar>p\<bar> * 10 ^ 2 + 1 / 2\<rfloor>;
          places = digits (n div 100) @ ''.'' @
                   [digit_char (n mod 100 div 10), digit_char (n mod 10)] @ ''%''
      in \<bar>of_int n / 100 - \<bar>p\<bar>\<bar> \<le> 1 / 200 \<and>
         pct ts (Fin y) (Some (Fin r)) =
           Inr ((if 0 < p then ''+'' else if p < 0 then ''-'' else '''') @ places) \<and>
         pctDelta ts (Fin y) (Some (Fin r)) =
           Inr ((if 0 \<le> p then ''+'' else ''-'') @ places)"
      unfolding Let_def n
      using close by (simp add: a b fixed)
  qed
  have large: "r \<noteq> 0 \<and> percent (Fin y) (Fin r) = Fin p \<and> 10 ^ 21 \<le> \<bar>p\<bar> \<longrightarrow>
      pct ts (Fin y) (Some (Fin r)) = Inr ((if 0 < p then ''+'' else ''-'') @ ts \<bar>p\<bar> @ ''%'') \<and>
      pctDelta ts (Fin y) (Some (Fin r)) =
        Inr ((if 0 < p then ''+'' else ''-'') @ ts \<bar>p\<bar> @ ''%'')"
    using pct_percent_large [of r y p ts] by blast
  have pos: "r \<noteq> 0 \<and> percent (Fin y) (Fin r) = PosInf \<longrightarrow>
      pct ts (Fin y) (Some (Fin r)) = Inr ''+Infinity%'' \<and>
      pctDelta ts (Fin y) (Some (Fin r)) = Inr ''+Infinity%''"
    using pct_percent_infinite [of r "Fin y" ts] by blast
  have neg: "r \<noteq> 0 \<and> percent (Fin y) (Fin r) = NegInf \<longrightarrow>
      pct ts (Fin y) (Some (Fin r)) = Inr ''-Infinity%'' \<and>
      pctDelta ts (Fin y) (Some (Fin r)) = Inr ''-Infinity%''"
    using pct_percent_infinite [of r "Fin y" ts] by blast
  have e1: "pct ts (Fin 110) (Some (Fin 100)) = Inr ''+10.00%''" by code_simp
  have e2: "pctDelta ts (Fin 110) (Some (Fin 100)) = Inr ''+10.00%''" by code_simp
  have e3: "pct ts (Fin 90) (Some (Fin 100)) = Inr ''-10.00%''" by code_simp
  have e4: "pctDelta ts (Fin 90) (Some (Fin 100)) = Inr ''-10.00%''" by code_simp
  have e5: "pct ts observed (Some (Fin 0)) = Inr sentinel" by (simp add: pct_def)
  have e6: "pctDelta ts observed (Some (Fin 0)) = Inr sentinel" by (simp add: pctDelta_def)
  from nan general large pos neg e1 e2 e3 e4 e5 e6 show ?thesis by blast
qed

theorem delta_percentage_as_computed_witness:
  "percent (Fin 183) (Fin 160) = Fin (8092405580431359 / 562949953421312) \<and>
   pct (\<lambda>q. []) (Fin 183) (Some (Fin 160)) = Inr ''+14.37%'' \<and>
   pctDelta (\<lambda>q. []) (Fin 183) (Some (Fin 160)) = Inr ''+14.37%'' \<and>
   percent (Fin (- 2)) (Fin 3) = Fin (- (2932031007402667 / 17592186044416)) \<and>
   pctDelta (\<lambda>q. []) (Fin (- 2)) (Some (Fin 3)) = Inr ''-166.67%'' \<and>
   percent (Fin (2 ^ 1023)) (Fin (- (2 ^ 1023))) = NegInf \<and>
   pct (\<lambda>q. []) (Fin (2 ^ 1023)) (Some (Fin (- (2 ^ 1023)))) = Inr ''-Infinity%''"
proof -
  have p1: "percent (Fin 183) (Fin 160) = Fin (8092405580431359 / 562949953421312)"
    by code_simp
  have p2: "percent (Fin (- 2)) (Fin 3) = Fin (- (2932031007402667 / 17592186044416))"
    by code_simp
  have c: "\<lfloor>\<bar>8092405580431359 / 562949953421312 :: rat\<bar> * 10 ^ 2 + 1 / 2\<rfloor> = 1437"
    by code_simp
  have d: "\<lfloor>\<bar>- (2932031007402667 / 17592186044416) :: rat\<bar> * 10 ^ 2 + 1 / 2\<rfloor> = 16667"
    by code_simp
  have e: "digits 14 = ''14''" "digits 166 = ''166''"
          "digit_char 3 = CHR ''3''" "digit_char 7 = CHR ''7''" "digit_char 6 = CHR ''6''"
    by code_simp+
  have s: "\<bar>8092405580431359 / 562949953421312 :: rat\<bar> < 10 ^ 21"
          "\<bar>- (2932031007402667 / 17592186044416) :: rat\<bar> < 10 ^ 21"
    by simp_all
  have o: "(- (2 ^ 1023) :: rat) \<noteq> 0" by simp
  from delta_percentage_as_computed
         [of 160 183 "8092405580431359 / 562949953421312" "\<lambda>q. []"] p1 s(1)
  have a: "pct (\<lambda>q. []) (Fin 183) (Some (Fin 160)) = Inr ''+14.37%'' \<and>
           pctDelta (\<lambda>q. []) (Fin 183) (Some (Fin 160)) = Inr ''+14.37%''"
    unfolding Let_def c by (simp add: e)
  from delta_percentage_as_computed
         [of 3 "- 2" "- (2932031007402667 / 17592186044416)" "\<lambda>q. []"] p2 s(2)
  have b: "pctDelta (\<lambda>q. []) (Fin (- 2)) (Some (Fin 3)) = Inr ''-166.67%''"
    unfolding Let_def d by (simp add: e)
  from delta_percentage_as_computed [of "- (2 ^ 1023)" "2 ^ 1023" 0 "\<lambda>q. []"] o
  have f: "pct (\<lambda>q. []) (Fin (2 ^ 1023)) (Some (Fin (- (2 ^ 1023)))) = Inr ''-Infinity%''"
    using percent_overflow by blast
  from p1 p2 a b f percent_overflow show ?thesis by blast
qed

text \<open>
  C2 as it is stated fails. The exact percentage of 183 against 160 is 14.375, which to two
  decimal places is 14.38; the double quotient lies just below it and both formatters print
  \<open>+14.37%\<close>. And for the finite values \<open>2^1023\<close> against \<open>-2^1023\<close>, whose percentage is
  -200, the difference overflows and the text is \<open>-Infinity%\<close>.
\<close>

theorem delta_percentage_counterexample:
  "(183 - 160) / 160 * 100 = (14375 / 1000 :: rat) \<and>
   pct (\<lambda>q. []) (Fin 183) (Some (Fin 160)) = Inr ''+14.37%'' \<and>
   pctDelta (\<lambda>q. []) (Fin 183) (Some (Fin 160)) = Inr ''+14.37%'' \<and>
   (2 ^ 1023 - (- (2 ^ 1023))) / (- (2 ^ 1023)) * 100 = (- 200 :: rat) \<and>
   pct (\<lambda>q. []) (Fin (2 ^ 1023)) (Some (Fin (- (2 ^ 1023)))) = Inr ''-Infinity%'' \<and>
   pctDelta (\<lambda>q. []) (Fin (2 ^ 1023)) (Some (Fin (- (2 ^ 1023)))) = Inr ''-Infinity%''"
proof -
  have a: "(183 - 160) / 160 * 100 = (14375 / 1000 :: rat)" by simp
  have b: "pct (\<lambda>q. []) (Fin 183) (Some (Fin 160)) = Inr ''+14.37%''" by code_simp
  have c: "pctDelta (\<lambda>q. []) (Fin 183) (Some (Fin 160)) = Inr ''+14.37%''" by code_simp
  have d: "(2 ^ 1023 - (- (2 ^ 1023))) / (- (2 ^ 1023)) * 100 = (- 200 :: rat)" by simp
  have o: "(- (2 ^ 1023) :: rat) \<noteq> 0" by simp
  have e: "pct (\<lambda>q. []) (Fin (2 ^ 1023)) (Some (Fin (- (2 ^ 1023)))) = Inr ''-Infinity%''"
    using pct_percent_infinite(3) [OF o percent_overflow] .
  have f: "pctDelta (\<lambda>q. []) (Fin (2 ^ 1023)) (Some (Fin (- (2 ^ 1023)))) = Inr ''-Infinity%''"
    using pct_percent_infinite(4) [OF o percent_overflow] .
  from a b c d e f show ?thesis by blast
qed

text \<open>
  C3. A result other than the sentinel should carry a leading sign, \<open>+\<close> also for a
  percentage of exactly zero. \<open>pctDelta\<close> tests \<open>p >= 0\<close> and does so; \<open>pct\<close> tests \<open>p > 0\<close>
  and prints a zero percentage with no sign at all.
\<close>

theorem pct_zero_has_no_sign:
  "pct ts (Fin 100) (Some (Fin 100)) = Inr ''0.00%'' \<and>
   pctDelta ts (Fin 100) (Some (Fin 100)) = Inr ''+0.00%''"
proof -
  have "pct ts (Fin 100) (Some (Fin 100)) = Inr ''0.00%''" by code_simp
  moreover have "pctDelta ts (Fin 100) (Some (Fin 100)) = Inr ''+0.00%''" by code_simp
  ultimately show ?thesis by simp
qed

theorem pct_zero_has_no_sign_witness:
  "pct (\<lambda>q. []) (Fin 100) (Some (Fin 100)) = Inr ''0.00%'' \<and>
   pctDelta (\<lambda>q. []) (Fin 100) (Some (Fin 100)) = Inr ''+0.00%''"
  using pct_zero_has_no_sign [of "\<lambda>q. []"] by simp

text \<open>
  C4, as the code has it. When the reference is \<open>null\<close>, not finite or exactly zero, both
  formatters return the sentinel; for every other reference the result is a text ending in
  \<open>%\<close>, never the sentinel; and no input makes either of them throw: the result is always
  a string. Only the reference is guarded. With a usable reference an observed value that
  is NaN is printed as \<open>NaN%\<close>, and a percentage that is infinite, from an infinite
  observed value or from overflow, as \<open>+Infinity%\<close> or \<open>-Infinity%\<close>.
\<close>

theorem delta_guards_give_sentinel:
  "(yref = None \<or> (\<exists>r. yref = Some r \<and> (\<not> isFinite r \<or> r = Fin 0)) \<longrightarrow>
      pct ts y yref = Inr sentinel \<and> pctDelta ts y yref = Inr sentinel) \<and>
   ((\<exists>r. yref = Some r \<and> isFinite r \<and> r \<noteq> Fin 0) \<longrightarrow>
      pct ts y yref \<noteq> Inr sentinel \<and> pctDelta ts y yref \<noteq> Inr sentinel) \<and>
   (\<exists>s. pct ts y yref = Inr s) \<and> (\<exists>s. pctDelta ts y yref = Inr s) \<and>
   (q \<noteq> 0 \<longrightarrow>
      pct ts NaN (Some (Fin q)) = Inr ''NaN%'' \<and> pctDelta ts NaN (Some (Fin q)) = Inr ''NaN%'') \<and>
   (q \<noteq> 0 \<and> percent y (Fin q) = PosInf \<longrightarrow>
      pct ts y (Some (Fin q)) = Inr ''+Infinity%'' \<and>
      pctDelta ts y (Some (Fin q)) = Inr ''+Infinity%'') \<and>
   (q \<noteq> 0 \<and> percent y (Fin q) = NegInf \<longrightarrow>
      pct ts y (Some (Fin q)) = Inr ''-Infinity%'' \<and>
      pctDelta ts y (Some (Fin q)) = Inr ''-Infinity%'')"
  using pct_sentinel [of yref ts y] pctDelta_sentinel [of yref ts y]
    pct_computed_not_sentinel [of yref _ ts y] pctDelta_computed_not_sentinel [of yref _ ts y]
    pct_total [of ts y yref] pctDelta_total [of ts y yref]
    pct_percent_NaN [of "Fin q" ts] pct_percent_infinite [of q y ts]
  by (simp (no_asm_simp)) blast

theorem delta_guards_give_sentinel_witness:
  "pct (\<lambda>q. []) (Fin 52) (Some NaN) = Inr sentinel \<and>
   pctDelta (\<lambda>q. []) (Fin 52) (Some NaN) = Inr sentinel \<and>
   pct (\<lambda>q. []) NaN (Some (Fin 40)) \<noteq> Inr sentinel \<and>
   pctDelta (\<lambda>q. []) NaN (Some (Fin 40)) \<noteq> Inr sentinel \<and>
   pct (\<lambda>q. []) NaN (Some (Fin 40)) = Inr ''NaN%'' \<and>
   pct (\<lambda>q. []) PosInf (Some (Fin 40)) = Inr ''+Infinity%''"
proof -
  have i: "percent PosInf (Fin 40) = PosInf"
    by (simp add: percent_def dsub_def signed_inf_def)
  from delta_guards_give_sentinel [of "Some NaN" "\<lambda>q. []" "Fin 52" 40]
    delta_guards_give_sentinel [of "Some (Fin 40)" "\<lambda>q. []" NaN 40]
    delta_guards_give_sentinel [of "Some (Fin 40)" "\<lambda>q. []" PosInf 40] i
  show ?thesis by simp
qed

text \<open>
  C4 as it is stated fails in its last clause: a degenerate observed value, or an
  overflow on finite values, does not resolve to the sentinel.
\<close>

theorem delta_degenerate_counterexample:
  "pct (\<lambda>q. []) NaN (Some (Fin 40)) = Inr ''NaN%'' \<and>
   pctDelta (\<lambda>q. []) NaN (Some (Fin 40)) = Inr ''NaN%'' \<and>
   pct (\<lambda>q. []) NegInf (Some (Fin 40)) = Inr ''-Infinity%'' \<and>
   pctDelta (\<lambda>q. []) (Fin (2 ^ 1023)) (Some (Fin (- (2 ^ 1023)))) = Inr ''-Infinity%'' \<and>
   Inr ''NaN%'' \<noteq> (Inr sentinel :: js_error + string) \<and>
   Inr ''-Infinity%'' \<noteq> (Inr sentinel :: js_error + string)"
proof -
  have a: "pct (\<lambda>q. []) NaN (Some (Fin 40)) = Inr ''NaN%''"
          "pctDelta (\<lambda>q. []) NaN (Some (Fin 40)) = Inr ''NaN%''"
    by (simp_all add: pct_percent_NaN)
  have i: "percent NegInf (Fin 40) = NegInf"
    by (simp add: percent_def dsub_def signed_inf_def)
  have b: "pct (\<lambda>q. []) NegInf (Some (Fin 40)) = Inr ''-Infinity%''"
    using pct_percent_infinite(3) [OF _ i] by simp
  have o: "(- (2 ^ 1023) :: rat) \<noteq> 0" by simp
  have c: "pctDelta (\<lambda>q. []) (Fin (2 ^ 1023)) (Some (Fin (- (2 ^ 1023)))) = Inr ''-Infinity%''"
    using pct_percent_infinite(4) [OF o percent_overflow] .
  have d: "Inr ''NaN%'' \<noteq> (Inr sentinel :: js_error + string)"
          "Inr ''-Infinity%'' \<noteq> (Inr sentinel :: js_error + string)"
    by (simp_all add: sentinel_def)
  from a b c d show ?thesis by blast
qed

section \<open>SegmentIndex\<close>

lemma sel_loop_snoc: "sel_loop (xs @ [r]) x st = sel_step x r (sel_loop xs x st)"
  by (induction xs arbitrary: st) simp_all

lemma prev_loop_snoc: "prev_loop (xs @ [r]) x st = prev_step x r (prev_loop xs x st)"
  by (induction xs arbitrary: st) simp_all

lemma prev_step_sel_step:
  "prev_step x r (best, map_option (\<lambda>r. project r x) chosen) =
   (fst (sel_step x r (best, chosen)),
    map_option (\<lambda>r. project r x) (snd (sel_step x r (best, chosen))))"
  by (simp add: Let_def)

lemma prev_loop_sel_loop:
  "prev_loop xs x (best, map_option (\<lambda>r. project r x) chosen) =
   (fst (sel_loop xs x (best, chosen)),
    map_option (\<lambda>r. project r x) (snd (sel_loop xs x (best, chosen))))"
proof (induction xs arbitrary: best chosen)
  case Nil
  show ?case by simp
next
  case (Cons r rs)
  obtain best' chosen' where s: "sel_step x r (best, chosen) = (best', chosen')"
    by (cases "sel_step x r (best, chosen)")
  have "prev_loop (r # rs) x (best, map_option (\<lambda>r. project r x) chosen) =
        prev_loop rs x (best', map_option (\<lambda>r. project r x) chosen')"
    by (simp only: prev_loop.simps prev_step_sel_step s fst_conv snd_conv)
  also have "\<dots> = (fst (sel_loop rs x (best', chosen')),
                   map_option (\<lambda>r. project r x) (snd (sel_loop rs x (best', chosen'))))"
    by (rule Cons.IH)
  also have "sel_loop rs x (best', chosen') = sel_loop (r # rs) x (best, chosen)"
    by (simp only: sel_loop.simps s)
  finally show ?case .
qed

lemma prevY_mostRecentAt: "prevY src x = map_option (\<lambda>r. project r x) (mostRecentAt src x)"
  using prev_loop_sel_loop [of src x NegInf None] by (simp add: prevY_def mostRecentAt_def)

lemma yPrevAtDate_prevY: "yPrevAtDate src x = prevY src x"
  by (simp add: yPrevAtDate_def prevY_def)

lemma find_append_list:
  "find P (xs @ ys) = (case find P xs of None \<Rightarrow> find P ys | Some a \<Rightarrow> Some a)"
  by (induction xs) simp_all

lemma find_filter_list: "find P (filter Q xs) = find (\<lambda>a. Q a \<and> P a) xs"
  by (induction xs) simp_all

lemma sel_loop_closed:
  "sel_loop src x (NegInf, None) =
   (let qs = filter (\<lambda>r. dge x (Fin (of_int (r_x_end r)))) src
    in if qs = [] then (NegInf, None)
       else (Fin (of_int (Max (r_x_end ` set qs))),
             find (\<lambda>r. r_x_end r = Max (r_x_end ` set qs)) qs))"
proof (induction src rule: rev_induct)
  case Nil
  show ?case by simp
next
  case (snoc r xs)
  define qs where "qs = filter (\<lambda>r. dge x (Fin (of_int (r_x_end r)))) xs"
  define M where "M = Max (r_x_end ` set qs)"
  have IH: "sel_loop xs x (NegInf, None) =
    (if qs = [] then (NegInf, None) else (Fin (of_int M), find (\<lambda>r. r_x_end r = M) qs))"
    using snoc.IH by (simp add: qs_def M_def Let_def)
  show ?case
  proof (cases "dge x (Fin (of_int (r_x_end r)))")
    case False
    then show ?thesis
      using IH by (simp add: sel_loop_snoc qs_def M_def Let_def)
  next
    case True
    then have f: "filter (\<lambda>r. dge x (Fin (of_int (r_x_end r)))) (xs @ [r]) = qs @ [r]"
      by (simp add: qs_def)
    show ?thesis
    proof (cases "qs = []")
      case True
      with \<open>dge x (Fin (of_int (r_x_end r)))\<close> IH f show ?thesis
        by (simp add: sel_loop_snoc Let_def)
    next
      case False
      then have fin: "finite (r_x_end ` set qs)" "r_x_end ` set qs \<noteq> {}" by simp_all
      have M': "Max (r_x_end ` set (qs @ [r])) = max (r_x_end r) M"
        using fin by (simp add: M_def)
      have Mge: "\<And>a. a \<in> set qs \<Longrightarrow> r_x_end a \<le> M"
        using fin by (simp add: M_def)
      have Min: "\<exists>a\<in>set qs. r_x_end a = M"
        using Max_in [OF fin] by (auto simp: M_def)
      show ?thesis
      proof (cases "M < r_x_end r")
        case True
        then have none: "find (\<lambda>a. r_x_end a = r_x_end r) qs = None"
          using Mge by (fastforce simp: find_None_iff)
        from True have "max (r_x_end r) M = r_x_end r" by simp
        with True \<open>dge x (Fin (of_int (r_x_end r)))\<close> False none show ?thesis
          unfolding sel_loop_snoc Let_def f M' IH
          by (simp add: find_append_list)
      next
        case le: False
        then have mx: "max (r_x_end r) M = M" by simp
        obtain a where "find (\<lambda>a. r_x_end a = M) qs = Some a"
          using Min by (cases "find (\<lambda>a. r_x_end a = M) qs") (auto simp: find_None_iff)
        with le \<open>dge x (Fin (of_int (r_x_end r)))\<close> False mx show ?thesis
          unfolding sel_loop_snoc Let_def f M' IH
          by (simp add: find_append_list)
      qed
    qed
  qed
qed


lemma dge_Fin_of_int: "dge (Fin t) (Fin (of_int e)) = (of_int e \<le> t)"
  by simp

lemma mostRecentAt_find:
  "mostRecentAt src (Fin t) =
   find (\<lambda>r. of_int (r_x_end r) \<le> t \<and>
              (\<forall>r'\<in>set src. of_int (r_x_end r') \<le> t \<longrightarrow> r_x_end r' \<le> r_x_end r)) src"
proof -
  define qs where "qs = filter (\<lambda>r. rat_of_int (r_x_end r) \<le> t) src"
  define M where "M = Max (r_x_end ` set qs)"
  have closed: "mostRecentAt src (Fin t) =
    (if qs = [] then None else find (\<lambda>r. r_x_end r = M) qs)"
    by (simp add: mostRecentAt_def sel_loop_closed Let_def qs_def M_def)
  show ?thesis
  proof (cases "qs = []")
    case True
    then have "\<forall>r\<in>set src. \<not> rat_of_int (r_x_end r) \<le> t"
      by (simp add: qs_def filter_empty_conv)
    then have "find (\<lambda>r. of_int (r_x_end r) \<le> t \<and>
       (\<forall>r'\<in>set src. of_int (r_x_end r') \<le> t \<longrightarrow> r_x_end r' \<le> r_x_end r)) src = None"
      by (simp add: find_None_iff)
    with True closed show ?thesis by simp
  next
    case False
    then have fin: "finite (r_x_end ` set qs)" "r_x_end ` set qs \<noteq> {}" by simp_all
    have set_qs: "set qs = {r \<in> set src. rat_of_int (r_x_end r) \<le> t}"
      by (simp add: qs_def)
    have key: "(rat_of_int (r_x_end r) \<le> t \<and> r_x_end r = M) =
       (rat_of_int (r_x_end r) \<le> t \<and>
        (\<forall>r'\<in>set src. rat_of_int (r_x_end r') \<le> t \<longrightarrow> r_x_end r' \<le> r_x_end r))"
      if "r \<in> set src" for r
    proof (cases "rat_of_int (r_x_end r) \<le> t")
      case False
      then show ?thesis by simp
    next
      case True
      with that have "r \<in> set qs" by (simp add: set_qs)
      then have "(M = r_x_end r) = (\<forall>a\<in>r_x_end ` set qs. a \<le> r_x_end r)"
        unfolding M_def using Max_eq_iff [OF fin, of "r_x_end r"] by blast
      then show ?thesis using True by (auto simp: set_qs)
    qed
    have "find (\<lambda>r. r_x_end r = M) qs =
          find (\<lambda>r. rat_of_int (r_x_end r) \<le> t \<and> r_x_end r = M) src"
      by (simp add: qs_def find_filter_list)
    also have "\<dots> = find (\<lambda>r. rat_of_int (r_x_end r) \<le> t \<and>
       (\<forall>r'\<in>set src. rat_of_int (r_x_end r') \<le> t \<longrightarrow> r_x_end r' \<le> r_x_end r)) src"
      by (rule find_cong) (simp_all add: key)
    finally show ?thesis using False closed by simp
  qed
qed

lemma mostRecentAt_None:
  "(mostRecentAt src (Fin t) = None) = (\<forall>r\<in>set src. \<not> of_int (r_x_end r) \<le> t)"
proof
  assume "mostRecentAt src (Fin t) = None"
  then have none: "\<forall>r\<in>set src. \<not> (rat_of_int (r_x_end r) \<le> t \<and>
     (\<forall>r'\<in>set src. rat_of_int (r_x_end r') \<le> t \<longrightarrow> r_x_end r' \<le> r_x_end r))"
    by (simp add: mostRecentAt_find find_None_iff)
  show "\<forall>r\<in>set src. \<not> of_int (r_x_end r) \<le> t"
  proof (rule ccontr)
    assume "\<not> (\<forall>r\<in>set src. \<not> rat_of_int (r_x_end r) \<le> t)"
    then have ne: "{r \<in> set src. rat_of_int (r_x_end r) \<le> t} \<noteq> {}" by blast
    define A where "A = r_x_end ` {r \<in> set src. rat_of_int (r_x_end r) \<le> t}"
    have "finite A" "A \<noteq> {}" using ne by (simp_all add: A_def)
    then have inA: "Max A \<in> A" and geA: "\<And>a. a \<in> A \<Longrightarrow> a \<le> Max A" by simp_all
    from inA obtain r where r: "r \<in> set src" "rat_of_int (r_x_end r) \<le> t" "r_x_end r = Max A"
      by (auto simp: A_def)
    have "\<forall>r'\<in>set src. rat_of_int (r_x_end r') \<le> t \<longrightarrow> r_x_end r' \<le> r_x_end r"
    proof (intro ballI impI)
      fix r' assume "r' \<in> set src" "rat_of_int (r_x_end r') \<le> t"
      then have "r_x_end r' \<in> A" by (simp add: A_def)
      then show "r_x_end r' \<le> r_x_end r" using geA r(3) by simp
    qed
    with none r show False by blast
  qed
next
  assume "\<forall>r\<in>set src. \<not> of_int (r_x_end r) \<le> t"
  then show "mostRecentAt src (Fin t) = None"
    by (simp add: mostRecentAt_find find_None_iff)
qed

lemma mostRecentAt_Some:
  assumes "mostRecentAt src (Fin t) = Some r"
  shows "\<exists>i<length src. src ! i = r \<and> of_int (r_x_end r) \<le> t \<and>
           (\<forall>r'\<in>set src. of_int (r_x_end r') \<le> t \<longrightarrow> r_x_end r' \<le> r_x_end r) \<and>
           (\<forall>j<i. r_x_end (src ! j) \<noteq> r_x_end r)"
proof -
  from assms obtain i where i: "i < length src" "src ! i = r"
    and q: "rat_of_int (r_x_end r) \<le> t"
    and mx: "\<forall>r'\<in>set src. rat_of_int (r_x_end r') \<le> t \<longrightarrow> r_x_end r' \<le> r_x_end r"
    and first: "\<forall>j<i. \<not> (rat_of_int (r_x_end (src ! j)) \<le> t \<and>
       (\<forall>r'\<in>set src. rat_of_int (r_x_end r') \<le> t \<longrightarrow> r_x_end r' \<le> r_x_end (src ! j)))"
    unfolding mostRecentAt_find find_Some_iff by blast
  have "\<forall>j<i. r_x_end (src ! j) \<noteq> r_x_end r"
  proof (intro allI impI notI)
    fix j assume "j < i" and eq: "r_x_end (src ! j) = r_x_end r"
    with first q mx show False by auto
  qed
  with i q mx show ?thesis by blast
qed


lemma eval_rows:
  "mostRecentAt [row_a, row_b, row_c] (Fin 105) = Some row_a"
  "mostRecentAt [row_a, row_b, row_c] (Fin 100) = Some row_a"
  "mostRecentAt [row_a, row_b, row_c] (Fin 95) = Some row_b"
  "mostRecentAt [row_a, row_b, row_c] (Fin 50) = None"
  "mostRecentAt [row_c, row_b, row_a] (Fin 105) = Some row_c"
  by (simp_all add: mostRecentAt_def row_a_def row_b_def row_c_def Let_def)

lemma eval_projections:
  "project row_a (Fin 105) = Fin 50"
  "project row_c (Fin 105) = Fin 5"
  by code_simp+

text \<open>
  C1. \<open>mostRecentAt\<close> at a query time \<open>t\<close> finds no row exactly when no row of the index
  ends at or before \<open>t\<close> (so never on an empty index); a row it finds belongs to the index,
  ends at or before \<open>t\<close>, and no row ending at or before \<open>t\<close> ends later. The boundary is
  inclusive: queried at the end time of one of its rows, the index answers with a row of
  that very end time. \<open>prevY\<close> and \<open>yPrevAtDate\<close> return the value at \<open>t\<close> of the line of
  the row found, or \<open>null\<close>.
\<close>

theorem mostRecentAt_greatest_end:
  "((mostRecentAt src (Fin t) = None) = (\<forall>r\<in>set src. \<not> of_int (r_x_end r) \<le> t)) \<and>
   (\<forall>r. mostRecentAt src (Fin t) = Some r \<longrightarrow>
        r \<in> set src \<and> of_int (r_x_end r) \<le> t \<and>
        (\<forall>r'\<in>set src. of_int (r_x_end r') \<le> t \<longrightarrow> r_x_end r' \<le> r_x_end r)) \<and>
   (\<forall>r\<in>set src. \<exists>r'. mostRecentAt src (Fin (of_int (r_x_end r))) = Some r' \<and>
        r_x_end r' = r_x_end r) \<and>
   mostRecentAt [] (Fin t) = None \<and>
   prevY src (Fin t) = map_option (\<lambda>r. project r (Fin t)) (mostRecentAt src (Fin t)) \<and>
   yPrevAtDate src (Fin t) = map_option (\<lambda>r. project r (Fin t)) (mostRecentAt src (Fin t))"
proof -
  have a: "(mostRecentAt src (Fin t) = None) = (\<forall>r\<in>set src. \<not> of_int (r_x_end r) \<le> t)"
    by (rule mostRecentAt_None)
  have b: "\<forall>r. mostRecentAt src (Fin t) = Some r \<longrightarrow>
        r \<in> set src \<and> of_int (r_x_end r) \<le> t \<and>
        (\<forall>r'\<in>set src. of_int (r_x_end r') \<le> t \<longrightarrow> r_x_end r' \<le> r_x_end r)"
    using mostRecentAt_Some [of src t] by (metis nth_mem)
  have c: "\<forall>r\<in>set src. \<exists>r'. mostRecentAt src (Fin (of_int (r_x_end r))) = Some r' \<and>
        r_x_end r' = r_x_end r"
  proof
    fix r assume r: "r \<in> set src"
    have "mostRecentAt src (Fin (of_int (r_x_end r))) \<noteq> None"
      using r by (auto simp: mostRecentAt_None)
    then obtain r' where r': "mostRecentAt src (Fin (of_int (r_x_end r))) = Some r'" by blast
    from mostRecentAt_Some [OF r'] r have "r_x_end r' \<le> r_x_end r" "r_x_end r \<le> r_x_end r'"
      by auto
    with r' show "\<exists>r'. mostRecentAt src (Fin (of_int (r_x_end r))) = Some r' \<and>
        r_x_end r' = r_x_end r" by simp
  qed
  have d: "mostRecentAt [] (Fin t) = None" by (simp add: mostRecentAt_def)
  have e: "prevY src (Fin t) = map_option (\<lambda>r. project r (Fin t)) (mostRecentAt src (Fin t))"
    by (rule prevY_mostRecentAt)
  have f: "yPrevAtDate src (Fin t) = map_option (\<lambda>r. project r (Fin t)) (mostRecentAt src (Fin t))"
    by (simp add: yPrevAtDate_prevY prevY_mostRecentAt)
  from a b c d e f show ?thesis by blast
qed

theorem mostRecentAt_greatest_end_witness:
  "mostRecentAt [row_a, row_b, row_c] (Fin 95) = Some row_b \<and>
   row_b \<in> set [row_a, row_b, row_c] \<and> r_x_end row_b = 90 \<and>
   r_x_end row_a = 100 \<and> r_x_end row_c = 100 \<and>
   prevY [row_a, row_b, row_c] (Fin 95) = Some (project row_b (Fin 95)) \<and>
   yPrevAtDate [row_a, row_b, row_c] (Fin 95) = Some (project row_b (Fin 95)) \<and>
   mostRecentAt [row_a, row_b, row_c] (Fin 50) = None \<and>
   prevY [row_a, row_b, row_c] (Fin 50) = None"
proof -
  have x: "r_x_end row_b = 90" "r_x_end row_a = 100" "r_x_end row_c = 100"
    by (simp_all add: row_a_def row_b_def row_c_def)
  from mostRecentAt_greatest_end [of "[row_a, row_b, row_c]" 95]
       mostRecentAt_greatest_end [of "[row_a, row_b, row_c]" 50]
  show ?thesis by (simp add: eval_rows eval_projections x)
qed

text \<open>
  C8. The choice among rows that share the greatest end time at or before \<open>t\<close> is fixed:
  the loop replaces its candidate only for a strictly later end time, so the first such row
  in the order of the index is the one found, and no row before it has the same end time.
  The answer is a function of the index and the time alone.
\<close>

theorem mostRecentAt_first_of_latest:
  "mostRecentAt src (Fin t) =
     find (\<lambda>r. of_int (r_x_end r) \<le> t \<and>
                (\<forall>r'\<in>set src. of_int (r_x_end r') \<le> t \<longrightarrow> r_x_end r' \<le> r_x_end r)) src \<and>
   (\<forall>r. mostRecentAt src (Fin t) = Some r \<longrightarrow>
        (\<exists>i<length src. src ! i = r \<and> (\<forall>j<i. r_x_end (src ! j) \<noteq> r_x_end r))) \<and>
   prevY src (Fin t) = map_option (\<lambda>r. project r (Fin t)) (mostRecentAt src (Fin t)) \<and>
   yPrevAtDate src (Fin t) = map_option (\<lambda>r. project r (Fin t)) (mostRecentAt src (Fin t))"
proof -
  have b: "\<forall>r. mostRecentAt src (Fin t) = Some r \<longrightarrow>
        (\<exists>i<length src. src ! i = r \<and> (\<forall>j<i. r_x_end (src ! j) \<noteq> r_x_end r))"
    using mostRecentAt_Some [of src t] by blast
  show ?thesis
    using mostRecentAt_find [of src t] b prevY_mostRecentAt [of src "Fin t"]
    by (simp add: yPrevAtDate_prevY)
qed

theorem mostRecentAt_first_of_latest_witness:
  "r_x_end row_a = r_x_end row_c \<and>
   mostRecentAt [row_a, row_b, row_c] (Fin 105) = Some row_a \<and>
   prevY [row_a, row_b, row_c] (Fin 105) = Some (Fin 50) \<and>
   mostRecentAt [row_c, row_b, row_a] (Fin 105) = Some row_c \<and>
   yPrevAtDate [row_c, row_b, row_a] (Fin 105) = Some (Fin 5)"
proof -
  have x: "r_x_end row_a = r_x_end row_c"
    by (simp add: row_a_def row_c_def)
  from mostRecentAt_first_of_latest [of "[row_a, row_b, row_c]" 105]
       mostRecentAt_first_of_latest [of "[row_c, row_b, row_a]" 105]
  show ?thesis by (simp add: eval_rows eval_projections x)
qed

section \<open>SegmentCompiler\<close>

lemma to_ms_simps:
  "to_ms (Timestamp ns) = Inr (ns div 10 ^ 6)"
  "to_ms BadTime = Inl DatetimeError"
  by (simp_all add: to_ms_def)

lemma compiled_row_of: "\<not> vertical s \<Longrightarrow> compiled (row_of s)"
  by (cases s) (simp add: compiled_def row_of_def vertical_def Let_def)

lemma anchors_row_of: "anchors (row_of s) = s"
  by (cases s) (simp add: anchors_def row_of_def Let_def)

text \<open>One pass of the loop of \<open>_mk_src\<close>, by the kind of tuple it meets.\<close>

lemma mk_src_loop_refused:
  "refused s \<Longrightarrow> \<exists>e. mk_src_loop (s # recs) out = Inl e"
proof -
  obtain x0 y0 x1 y1 where s: "s = (x0, y0, x1, y1)" by (cases s)
  assume "refused s"
  then show ?thesis
    by (cases x0; cases x1; cases y0; cases y1)
       (simp_all add: s refused_def to_ms_simps Let_def)
qed

lemma mk_src_loop_skip:
  "a div 10 ^ 6 = b div 10 ^ 6 \<Longrightarrow>
   mk_src_loop ((Timestamp a, y0, Timestamp b, y1) # recs) out = mk_src_loop recs out"
  by (simp add: to_ms_simps)

lemma mk_src_loop_raw:
  "mk_src_loop (raw s # recs) out =
   (if vertical s then mk_src_loop recs out else mk_src_loop recs (out @ [row_of s]))"
  by (cases s) (simp add: raw_def vertical_def row_of_def to_ms_simps Let_def)

lemma not_refused_cases:
  assumes "\<not> refused s"
  obtains a y0 b y1 where "s = (Timestamp a, y0, Timestamp b, y1)" "a div 10 ^ 6 = b div 10 ^ 6"
        | g where "s = raw g" "\<not> vertical g"
proof -
  obtain x0 y0 x1 y1 where s: "s = (x0, y0, x1, y1)" by (cases s)
  from assms obtain a b where t: "x0 = Timestamp a" "x1 = Timestamp b"
    by (cases x0; cases x1) (simp_all add: s refused_def)
  show ?thesis
  proof (cases "a div 10 ^ 6 = b div 10 ^ 6")
    case True
    then show ?thesis using that(1) s t by simp
  next
    case False
    with assms obtain p q where "y0 = Number p" "y1 = Number q"
      by (cases y0; cases y1) (simp_all add: s t refused_def to_ms_simps)
    with False have "s = raw (a, p, b, q)" "\<not> vertical (a, p, b, q)"
      by (simp_all add: s t raw_def vertical_def)
    then show ?thesis by (rule that(2))
  qed
qed

lemma mk_src_loop_not_refused:
  assumes "\<not> refused s"
  shows "\<exists>out'. mk_src_loop (s # recs) out = mk_src_loop recs out' \<and>
           ((\<forall>r\<in>set out. compiled r) \<longrightarrow> (\<forall>r\<in>set out'. compiled r))"
  using assms
proof (cases rule: not_refused_cases)
  case (1 a y0 b y1)
  then show ?thesis using mk_src_loop_skip by blast
next
  case (2 g)
  then have "mk_src_loop (s # recs) out = mk_src_loop recs (out @ [row_of g])"
    by (simp add: mk_src_loop_raw)
  moreover have "(\<forall>r\<in>set out. compiled r) \<longrightarrow> (\<forall>r\<in>set (out @ [row_of g]). compiled r)"
    using 2 by (simp add: compiled_row_of)
  ultimately show ?thesis by blast
qed

lemma mk_src_loop_Inl_iff:
  "(\<exists>e. mk_src_loop recs out = Inl e) = (\<exists>s\<in>set recs. refused s)"
proof (induction recs arbitrary: out)
  case Nil
  show ?case by simp
next
  case (Cons s recs)
  show ?case
  proof (cases "refused s")
    case True
    then show ?thesis using mk_src_loop_refused [of s recs out] by simp
  next
    case False
    then obtain out' where "mk_src_loop (s # recs) out = mk_src_loop recs out'"
      using mk_src_loop_not_refused by blast
    then show ?thesis using Cons.IH [of out'] False by simp
  qed
qed

lemma mk_src_loop_compiled:
  "mk_src_loop recs out = Inr out' \<Longrightarrow> \<forall>r\<in>set out. compiled r \<Longrightarrow> \<forall>r\<in>set out'. compiled r"
proof (induction recs arbitrary: out)
  case Nil
  then show ?case by simp
next
  case (Cons s recs)
  show ?case
  proof (cases "refused s")
    case True
    then show ?thesis using mk_src_loop_refused [of s recs out] Cons.prems(1) by auto
  next
    case False
    then obtain out1 where "mk_src_loop (s # recs) out = mk_src_loop recs out1"
      "\<forall>r\<in>set out1. compiled r"
      using mk_src_loop_not_refused [of s recs out] Cons.prems(2) by blast
    then show ?thesis using Cons.IH [of out1] Cons.prems(1) by simp
  qed
qed

lemma mk_src_loop_segments:
  "mk_src_loop (map raw segs) out = Inr (out @ map row_of (filter (\<lambda>s. \<not> vertical s) segs))"
  by (induction segs arbitrary: out) (simp_all add: mk_src_loop_raw)

lemma mk_src_Inl_iff: "(\<exists>e. mk_src recs = Inl e) = (\<exists>s\<in>set recs. refused s)"
  using mk_src_loop_Inl_iff [of recs "[]"] by (simp add: mk_src_def)

lemma mk_src_compiled: "mk_src recs = Inr out \<Longrightarrow> r \<in> set out \<Longrightarrow> compiled r"
  using mk_src_loop_compiled [of recs "[]" out] by (auto simp: mk_src_def split: if_splits)

lemma mk_src_segments:
  "mk_src (map raw segs) = Inr (map row_of (filter (\<lambda>s. \<not> vertical s) segs))"
  using mk_src_loop_segments [of segs "[]"] by (simp add: mk_src_def)


text \<open>The same for the loop of \<open>plot_with_prev_deltas\<close>.\<close>

lemma mk_source_id: "mk_source recs = recs"
  by (simp add: mk_source_def)

lemma trendlines_loop_refused:
  "refused_tl t \<Longrightarrow> \<exists>e. trendlines_loop (t # tls) res_lines sup_lines = Inl e"
  by (cases "tl_x0 t"; cases "tl_x1 t"; cases "tl_y0 t"; cases "tl_y1 t")
     (simp_all add: refused_tl_def to_ms_simps Let_def)

lemma trendlines_loop_raw:
  "trendlines_loop (raw_tl (k, s) # tls) res_lines sup_lines =
   (if vertical s then trendlines_loop tls res_lines sup_lines
    else if k = ''res'' then trendlines_loop tls (res_lines @ [row_of s]) sup_lines
    else trendlines_loop tls res_lines (sup_lines @ [row_of s]))"
  by (cases s) (simp add: raw_tl_def vertical_def row_of_def to_ms_simps Let_def)

lemma not_refused_tl:
  assumes "\<not> refused_tl t"
  shows "\<exists>k s. t = raw_tl (k, s)"
proof -
  from assms obtain a b p q where
    "tl_x0 t = Timestamp a" "tl_x1 t = Timestamp b" "tl_y0 t = Number p" "tl_y1 t = Number q"
    by (cases "tl_x0 t"; cases "tl_x1 t"; cases "tl_y0 t"; cases "tl_y1 t")
       (simp_all add: refused_tl_def)
  then have "t = raw_tl (tl_kind t, a, p, b, q)"
    by (simp add: raw_tl_def)
  then show ?thesis by blast
qed

lemma trendlines_loop_not_refused:
  assumes "\<not> refused_tl t"
  shows "\<exists>res' sup'. trendlines_loop (t # tls) res_lines sup_lines = trendlines_loop tls res' sup' \<and>
           ((\<forall>r\<in>set res_lines \<union> set sup_lines. compiled r) \<longrightarrow>
            (\<forall>r\<in>set res' \<union> set sup'. compiled r))"
proof -
  from assms obtain k s where t: "t = raw_tl (k, s)" using not_refused_tl by blast
  show ?thesis
  proof (cases "vertical s")
    case True
    then have "trendlines_loop (t # tls) res_lines sup_lines = trendlines_loop tls res_lines sup_lines"
      by (simp add: t trendlines_loop_raw del: trendlines_loop.simps)
    then show ?thesis by blast
  next
    case False
    then have c: "compiled (row_of s)" by (rule compiled_row_of)
    show ?thesis
    proof (cases "k = ''res''")
      case True
      with False have "trendlines_loop (t # tls) res_lines sup_lines =
          trendlines_loop tls (res_lines @ [row_of s]) sup_lines"
        by (simp add: t trendlines_loop_raw del: trendlines_loop.simps)
      moreover have "(\<forall>r\<in>set res_lines \<union> set sup_lines. compiled r) \<longrightarrow>
            (\<forall>r\<in>set (res_lines @ [row_of s]) \<union> set sup_lines. compiled r)"
        using c by auto
      ultimately show ?thesis by blast
    next
      case nr: False
      with False have "trendlines_loop (t # tls) res_lines sup_lines =
          trendlines_loop tls res_lines (sup_lines @ [row_of s])"
        by (simp add: t trendlines_loop_raw del: trendlines_loop.simps)
      moreover have "(\<forall>r\<in>set res_lines \<union> set sup_lines. compiled r) \<longrightarrow>
            (\<forall>r\<in>set res_lines \<union> set (sup_lines @ [row_of s]). compiled r)"
        using c by auto
      ultimately show ?thesis by blast
    qed
  qed
qed

lemma trendlines_loop_Inl_iff:
  "(\<exists>e. trendlines_loop tls res_lines sup_lines = Inl e) = (\<exists>t\<in>set tls. refused_tl t)"
proof (induction tls arbitrary: res_lines sup_lines)
  case Nil
  show ?case by simp
next
  case (Cons t tls)
  show ?case
  proof (cases "refused_tl t")
    case True
    then show ?thesis using trendlines_loop_refused [of t tls res_lines sup_lines] by simp
  next
    case False
    then obtain res' sup' where
      "trendlines_loop (t # tls) res_lines sup_lines = trendlines_loop tls res' sup'"
      using trendlines_loop_not_refused by blast
    then show ?thesis using Cons.IH [of res' sup'] False by simp
  qed
qed

lemma trendlines_loop_compiled:
  "trendlines_loop tls res_lines sup_lines = Inr (res', sup') \<Longrightarrow>
   \<forall>r\<in>set res_lines \<union> set sup_lines. compiled r \<Longrightarrow>
   \<forall>r\<in>set res' \<union> set sup'. compiled r"
proof (induction tls arbitrary: res_lines sup_lines)
  case Nil
  then show ?case by simp
next
  case (Cons t tls)
  show ?case
  proof (cases "refused_tl t")
    case True
    then show ?thesis
      using trendlines_loop_refused [of t tls res_lines sup_lines] Cons.prems(1) by auto
  next
    case False
    then obtain res1 sup1 where
      "trendlines_loop (t # tls) res_lines sup_lines = trendlines_loop tls res1 sup1"
      "\<forall>r\<in>set res1 \<union> set sup1. compiled r"
      using trendlines_loop_not_refused [of t tls res_lines sup_lines] Cons.prems(2) by blast
    then show ?thesis using Cons.IH [of res1 sup1] Cons.prems(1) by simp
  qed
qed

lemma trendlines_loop_segments:
  "trendlines_loop (map raw_tl tls) res_lines sup_lines =
   Inr (res_lines @ map row_of (filter (\<lambda>s. \<not> vertical s)
                      (map snd (filter (\<lambda>ks. fst ks = ''res'') tls))),
        sup_lines @ map row_of (filter (\<lambda>s. \<not> vertical s)
                      (map snd (filter (\<lambda>ks. fst ks \<noteq> ''res'') tls))))"
proof (induction tls arbitrary: res_lines sup_lines)
  case Nil
  show ?case by simp
next
  case (Cons ks tls)
  obtain k s where ks: "ks = (k, s)" by (cases ks)
  show ?case
    by (simp add: ks trendlines_loop_raw Cons.IH del: trendlines_loop.simps)
qed

lemma plot_sources_Inl_iff: "(\<exists>e. plot_sources tls = Inl e) = (\<exists>t\<in>set tls. refused_tl t)"
proof -
  have "(\<exists>e. plot_sources tls = Inl e) = (\<exists>e. trendlines_loop tls [] [] = Inl e)"
    by (cases "trendlines_loop tls [] []") (auto simp: plot_sources_def)
  then show ?thesis by (simp add: trendlines_loop_Inl_iff)
qed

lemma plot_sources_compiled:
  assumes "plot_sources tls = Inr (res_src, sup_src)" and "r \<in> set res_src \<union> set sup_src"
  shows "compiled r"
proof -
  from assms(1) have "trendlines_loop tls [] [] = Inr (res_src, sup_src)"
    by (cases "trendlines_loop tls [] []") (auto simp: plot_sources_def mk_source_id)
  from trendlines_loop_compiled [OF this] assms(2) show ?thesis by simp
qed

lemma plot_sources_segments:
  "plot_sources (map raw_tl tls) =
   Inr (map row_of (filter (\<lambda>s. \<not> vertical s) (map snd (filter (\<lambda>ks. fst ks = ''res'') tls))),
        map row_of (filter (\<lambda>s. \<not> vertical s) (map snd (filter (\<lambda>ks. fst ks \<noteq> ''res'') tls))))"
  using trendlines_loop_segments [of tls "[]" "[]"]
  by (simp add: plot_sources_def mk_source_id)


text \<open>The sample data, evaluated.\<close>

lemma sample_rows:
  "row_of seg_a = row_a" "row_of seg_b = row_b" "row_of seg_c = row_c"
  by code_simp+

lemma sample_vertical:
  "vertical seg_v" "\<not> vertical seg_a" "\<not> vertical seg_b" "\<not> vertical seg_c"
  by (simp_all add: vertical_def seg_a_def seg_b_def seg_c_def seg_v_def)

lemma sample_refused:
  "refused bad_tuple" "refused_tl bad_tl" "\<not> refused (raw seg_a)"
  "\<not> refused_tl (raw_tl (''res'', seg_a))"
  by (simp_all add: refused_def refused_tl_def bad_tuple_def bad_tl_def raw_def raw_tl_def
        seg_a_def to_ms_simps)

text \<open>What a finite result of an operation says about its operands.\<close>

lemma dadd_Fin_left: "dadd x (Fin q) = Fin v \<Longrightarrow> \<exists>p. x = Fin p \<and> round_double (p + q) = Fin v"
  by (cases x) simp_all

lemma dadd_Fin_right: "dadd (Fin p) y = Fin v \<Longrightarrow> \<exists>q. y = Fin q \<and> round_double (p + q) = Fin v"
  by (cases y) simp_all

lemma ddiv_Fin:
  "ddiv x (Fin q) = Fin v \<Longrightarrow> q \<noteq> 0 \<Longrightarrow> \<exists>p. x = Fin p \<and> round_double (p / q) = Fin v"
  by (cases x) (simp_all add: signed_inf_def split: if_splits)

lemma dneg_Fin: "dneg x = Fin q \<Longrightarrow> x = Fin (- q)"
  by (cases x) simp_all

lemma exact_line:
  fixes p0 p1 e x0 :: rat
  assumes "e \<noteq> 0"
  shows "(p1 - p0) / e * (e + x0) + (p0 - (p1 - p0) / e * x0) = p1"
proof -
  define s where "s = (p1 - p0) / e"
  have "s * (e + x0) + (p0 - s * x0) = s * e + p0" by (simp add: algebra_simps)
  also have "s * e = p1 - p0" using assms by (simp add: s_def)
  finally show ?thesis by (simp add: s_def)
qed

lemma project_near_line:
  assumes "r_m r = Fin m" and "r_b r = Fin b" and "project r (Fin t) = Fin v"
  shows "\<bar>v - (m * t + b)\<bar> \<le> unit_roundoff * (3 * \<bar>m * t\<bar> + \<bar>b\<bar>) + 3 * eta"
proof -
  from assms have "dadd (round_double (m * t)) (Fin b) = Fin v"
    by (simp add: project_def)
  from dadd_Fin_left [OF this] obtain c where
    c: "round_double (m * t) = Fin c" and v: "round_double (c + b) = Fin v" by blast
  show ?thesis
    using round_double_error [OF c] round_double_error [OF v] by (rule two_roundings)
qed

lemma compiled_near_anchors:
  assumes c: "compiled r"
    and y: "r_y0 r = Fin p0" "r_y1 r = Fin p1"
    and mb: "r_m r = Fin m" "r_b r = Fin b"
    and P: "project r (Fin (of_int (r_x0ms r))) = Fin P0"
           "project r (Fin (of_int (r_x1ms r))) = Fin P1"
  shows "\<bar>P0 - p0\<bar> \<le> 3 * unit_roundoff * (\<bar>p0\<bar> + \<bar>m * of_int (r_x0ms r)\<bar>) + 3 * eta"
    and "\<bar>P1 - p1\<bar> \<le> 4 * unit_roundoff *
           (\<bar>p0\<bar> + \<bar>p1\<bar> + \<bar>m * of_int (r_x0ms r)\<bar> + \<bar>m * of_int (r_x1ms r)\<bar>)
         + (2 * \<bar>of_int (r_x1ms r - r_x0ms r)\<bar> + 6) * eta"
proof -
  define x0 :: rat where "x0 = of_int (r_x0ms r)"
  define x1 :: rat where "x1 = of_int (r_x1ms r)"
  define d :: rat where "d = of_int (r_x1ms r - r_x0ms r)"
  have d: "d = x1 - x0" "d \<noteq> 0"
    using c by (simp_all add: d_def x0_def x1_def compiled_def)
  \<comment> \<open>the slope\<close>
  have "ddiv (round_double (p1 - p0)) (Fin d) = Fin m"
    using c y mb(1) by (simp add: compiled_def dsub_def d_def)
  from ddiv_Fin [OF this d(2)] obtain ds where
    ds: "round_double (p1 - p0) = Fin ds" and m: "round_double (ds / d) = Fin m" by blast
  \<comment> \<open>the intercept\<close>
  have "dadd (Fin p0) (dneg (round_double (m * x0))) = Fin b"
    using c y(1) mb by (simp add: compiled_def dsub_def x0_def)
  from dadd_Fin_right [OF this] obtain q where
    q: "dneg (round_double (m * x0)) = Fin q" and b': "round_double (p0 + q) = Fin b" by blast
  define c0 where "c0 = - q"
  have c0: "round_double (m * x0) = Fin c0"
    using dneg_Fin [OF q] by (simp add: c0_def)
  have b: "round_double (p0 - c0) = Fin b"
    using b' by (simp add: c0_def)
  \<comment> \<open>the two projections\<close>
  have P0: "round_double (c0 + b) = Fin P0"
    using P(1) mb c0 by (simp add: project_def x0_def)
  have "dadd (round_double (m * x1)) (Fin b) = Fin P1"
    using P(2) mb by (simp add: project_def x1_def)
  from dadd_Fin_left [OF this] obtain c1 where
    c1: "round_double (m * x1) = Fin c1" and P1: "round_double (c1 + b) = Fin P1" by blast
  note bounds = anchor_bounds [OF d round_double_error [OF ds] round_double_error [OF m]
      round_double_error [OF c0] round_double_error [OF b] round_double_error [OF P0]
      round_double_error [OF c1] round_double_error [OF P1]]
  show "\<bar>P0 - p0\<bar> \<le> 3 * unit_roundoff * (\<bar>p0\<bar> + \<bar>m * of_int (r_x0ms r)\<bar>) + 3 * eta"
    using bounds(1) by (simp add: x0_def)
  show "\<bar>P1 - p1\<bar> \<le> 4 * unit_roundoff *
           (\<bar>p0\<bar> + \<bar>p1\<bar> + \<bar>m * of_int (r_x0ms r)\<bar> + \<bar>m * of_int (r_x1ms r)\<bar>)
         + (2 * \<bar>of_int (r_x1ms r - r_x0ms r)\<bar> + 6) * eta"
    using bounds(2) by (simp only: x0_def x1_def d_def)
qed

text \<open>The rows of the line through \<open>-2^1023\<close> and \<open>2^1023\<close> and of the line at epoch times.\<close>

lemma dsub_huge: "dsub (Fin huge) (Fin (- huge)) = PosInf"
proof -
  have "round_double (huge + huge) = signed_inf (huge + huge < 0)"
    by (rule round_double_overflow) (simp add: huge_def)
  then show ?thesis by (simp add: dsub_def signed_inf_def huge_def)
qed

lemma row_of_seg_huge:
  "r_m (row_of seg_huge) = PosInf" "r_b (row_of seg_huge) = NegInf"
  "r_x0ms (row_of seg_huge) = 1" "r_x1ms (row_of seg_huge) = 2"
  "r_y0 (row_of seg_huge) = Fin (- huge)" "r_y1 (row_of seg_huge) = Fin huge"
  "project (row_of seg_huge) (Fin 1) = NaN" "project (row_of seg_huge) (Fin 2) = NaN"
  "\<not> vertical seg_huge"
  by (simp_all add: row_of_def seg_huge_def Let_def dsub_huge signed_inf_def project_def
      vertical_def dsub_def [of _ PosInf])

lemma row_of_seg_epoch:
  "r_x0ms (row_of seg_epoch) = 1700000000000" "r_x1ms (row_of seg_epoch) = 1700000000001"
  "r_y0 (row_of seg_epoch) = Fin (891659949661225 / 8796093022208)"
  "r_y1 (row_of seg_epoch) = Fin (666260065967145 / 4398046511104)"
  "r_m (row_of seg_epoch) = Fin (440860182273065 / 8796093022208)"
  "r_b (row_of seg_epoch) = Fin (- (681631999999189 / 8))"
  "project (row_of seg_epoch) (Fin 1700000000000) = Fin (811 / 8)"
  "project (row_of seg_epoch) (Fin 1700000000001) = Fin (303 / 2)"
  "\<not> vertical seg_epoch"
  by code_simp+

lemma prevY_single:
  "prevY [r] (Fin t) = (if of_int (r_x_end r) \<le> t then Some (project r (Fin t)) else None)"
  by (simp add: prevY_def Let_def)

lemma mostRecentAt_single:
  "mostRecentAt [r] (Fin t) = (if of_int (r_x_end r) \<le> t then Some r else None)"
  by (simp add: mostRecentAt_def Let_def)

lemma r_x_end_row_of: "r_x_end (row_of (x0, y0, x1, y1)) = max (x0 div 10 ^ 6) (x1 div 10 ^ 6)"
  by (simp add: row_of_def Let_def)


text \<open>
  C5. Given segments of the data model, either compiler returns without an error, and the
  rows it returns carry, in order, exactly the anchor points of the segments that are not
  vertical: none of those is missing, no vertical one is among them, and so there are at
  most as many rows as segments. Every row is a CompiledSegment, its two times differ.
\<close>

theorem compile_drops_exactly_vertical:
  "(\<exists>out. mk_src (map raw segs) = Inr out \<and>
      map anchors out = filter (\<lambda>s. \<not> vertical s) segs \<and>
      length out \<le> length segs \<and> (\<forall>r\<in>set out. compiled r)) \<and>
   (\<exists>res_src sup_src. plot_sources (map raw_tl tls) = Inr (res_src, sup_src) \<and>
      map anchors res_src =
        filter (\<lambda>s. \<not> vertical s) (map snd (filter (\<lambda>ks. fst ks = ''res'') tls)) \<and>
      map anchors sup_src =
        filter (\<lambda>s. \<not> vertical s) (map snd (filter (\<lambda>ks. fst ks \<noteq> ''res'') tls)) \<and>
      length res_src + length sup_src \<le> length tls \<and>
      (\<forall>r\<in>set res_src \<union> set sup_src. compiled r))"
proof (intro conjI)
  define out where "out = map row_of (filter (\<lambda>s. \<not> vertical s) segs)"
  have a: "mk_src (map raw segs) = Inr out"
    by (simp add: out_def mk_src_segments)
  have b: "map anchors out = filter (\<lambda>s. \<not> vertical s) segs"
    by (simp add: out_def anchors_row_of comp_def)
  have c: "length out \<le> length segs"
    by (simp add: out_def)
  have d: "\<forall>r\<in>set out. compiled r"
    by (auto simp: out_def compiled_row_of)
  from a b c d
  show "\<exists>out. mk_src (map raw segs) = Inr out \<and>
      map anchors out = filter (\<lambda>s. \<not> vertical s) segs \<and>
      length out \<le> length segs \<and> (\<forall>r\<in>set out. compiled r)"
    by blast
next
  define rs where "rs = map snd (filter (\<lambda>ks. fst ks = ''res'') tls)"
  define ss where "ss = map snd (filter (\<lambda>ks. fst ks \<noteq> ''res'') tls)"
  define res_src where "res_src = map row_of (filter (\<lambda>s. \<not> vertical s) rs)"
  define sup_src where "sup_src = map row_of (filter (\<lambda>s. \<not> vertical s) ss)"
  have a: "plot_sources (map raw_tl tls) = Inr (res_src, sup_src)"
    by (simp add: res_src_def sup_src_def rs_def ss_def plot_sources_segments)
  have b: "map anchors res_src = filter (\<lambda>s. \<not> vertical s) rs"
          "map anchors sup_src = filter (\<lambda>s. \<not> vertical s) ss"
    by (simp_all add: res_src_def sup_src_def anchors_row_of comp_def)
  have "length rs + length ss = length tls"
    unfolding rs_def ss_def length_map by (rule sum_length_filter_compl)
  moreover have "length res_src \<le> length rs" "length sup_src \<le> length ss"
    by (simp_all add: res_src_def sup_src_def)
  ultimately have c: "length res_src + length sup_src \<le> length tls" by linarith
  have d: "\<forall>r\<in>set res_src \<union> set sup_src. compiled r"
    by (auto simp: res_src_def sup_src_def compiled_row_of)
  from a b c d
  show "\<exists>res_src sup_src. plot_sources (map raw_tl tls) = Inr (res_src, sup_src) \<and>
      map anchors res_src =
        filter (\<lambda>s. \<not> vertical s) (map snd (filter (\<lambda>ks. fst ks = ''res'') tls)) \<and>
      map anchors sup_src =
        filter (\<lambda>s. \<not> vertical s) (map snd (filter (\<lambda>ks. fst ks \<noteq> ''res'') tls)) \<and>
      length res_src + length sup_src \<le> length tls \<and>
      (\<forall>r\<in>set res_src \<union> set sup_src. compiled r)"
    unfolding rs_def ss_def by blast
qed

theorem compile_drops_exactly_vertical_witness:
  "mk_src (map raw [seg_a, seg_v, seg_b, seg_c]) = Inr [row_a, row_b, row_c] \<and>
   plot_sources (map raw_tl [(''res'', seg_a), (''sup'', seg_v), (''sup'', seg_b), (''res'', seg_c)])
     = Inr ([row_a, row_c], [row_b]) \<and>
   vertical seg_v \<and> compiled row_a \<and> compiled row_b \<and> compiled row_c"
proof -
  have m: "mk_src (map raw [seg_a, seg_v, seg_b, seg_c]) = Inr [row_a, row_b, row_c]"
    using mk_src_segments [of "[seg_a, seg_v, seg_b, seg_c]"]
    by (simp add: sample_vertical sample_rows)
  have p: "plot_sources
      (map raw_tl [(''res'', seg_a), (''sup'', seg_v), (''sup'', seg_b), (''res'', seg_c)])
     = Inr ([row_a, row_c], [row_b])"
    using plot_sources_segments
      [of "[(''res'', seg_a), (''sup'', seg_v), (''sup'', seg_b), (''res'', seg_c)]"]
    by (simp add: sample_vertical sample_rows)
  from compile_drops_exactly_vertical
    [of "[seg_a, seg_v, seg_b, seg_c]"
        "[(''res'', seg_a), (''sup'', seg_v), (''sup'', seg_b), (''res'', seg_c)]"]
  show ?thesis
    unfolding m p by (simp add: sample_vertical)
qed

text \<open>
  C7, as the code has it. In exact arithmetic the line with the slope and the intercept
  of the two formulas passes through both anchors. The compilers compute the two formulas
  in doubles, each operation rounded, and so does the projection. For a row of either
  compiler with finite prices, whose slope, intercept and projections at its two times
  came out finite, the projection at the start time is within
  \<open>3 * 2^-53 * (|y0| + |m * x0ms|) + 3 * 2^-1075\<close> of the start price, and the projection
  at the end time within
  \<open>4 * 2^-53 * (|y0| + |y1| + |m * x0ms| + |m * x1ms|) + (2 * |x1ms - x0ms| + 6) * 2^-1075\<close>
  of the end price: a tolerance relative to the size of slope times time, not to the price.
\<close>

theorem projection_near_anchors:
  assumes "mk_src recs = Inr out \<and> r \<in> set out \<or>
           plot_sources tls = Inr (res_src, sup_src) \<and> r \<in> set res_src \<union> set sup_src"
    and "r_y0 r = Fin p0" and "r_y1 r = Fin p1"
    and "r_m r = Fin m" and "r_b r = Fin b"
    and "project r (Fin (of_int (r_x0ms r))) = Fin P0"
    and "project r (Fin (of_int (r_x1ms r))) = Fin P1"
  shows "r_x0ms r \<noteq> r_x1ms r \<and>
         (let s = (p1 - p0) / of_int (r_x1ms r - r_x0ms r); i = p0 - s * of_int (r_x0ms r)
          in s * of_int (r_x0ms r) + i = p0 \<and> s * of_int (r_x1ms r) + i = p1) \<and>
         r_m r = ddiv (dsub (r_y1 r) (r_y0 r)) (Fin (of_int (r_x1ms r - r_x0ms r))) \<and>
         r_b r = dsub (r_y0 r) (dmul (r_m r) (Fin (of_int (r_x0ms r)))) \<and>
         \<bar>P0 - p0\<bar> \<le> 3 * unit_roundoff * (\<bar>p0\<bar> + \<bar>m * of_int (r_x0ms r)\<bar>) + 3 * eta \<and>
         \<bar>P1 - p1\<bar> \<le> 4 * unit_roundoff *
             (\<bar>p0\<bar> + \<bar>p1\<bar> + \<bar>m * of_int (r_x0ms r)\<bar> + \<bar>m * of_int (r_x1ms r)\<bar>)
           + (2 * \<bar>of_int (r_x1ms r - r_x0ms r)\<bar> + 6) * eta"
proof -
  have c: "compiled r"
    using assms(1) mk_src_compiled plot_sources_compiled by blast
  then have ne: "r_x0ms r \<noteq> r_x1ms r" by (simp add: compiled_def)
  then have d: "(of_int (r_x1ms r - r_x0ms r) :: rat) \<noteq> 0" by simp
  have exact: "let s = (p1 - p0) / of_int (r_x1ms r - r_x0ms r); i = p0 - s * of_int (r_x0ms r)
          in s * of_int (r_x0ms r) + i = p0 \<and> s * of_int (r_x1ms r) + i = p1"
  proof -
    define e :: rat where "e = of_int (r_x1ms r - r_x0ms r)"
    have x1: "(of_int (r_x1ms r) :: rat) = e + of_int (r_x0ms r)" by (simp add: e_def)
    have e0: "e \<noteq> 0" using d by (simp add: e_def)
    have "(p1 - p0) / e * (e + of_int (r_x0ms r)) + (p0 - (p1 - p0) / e * of_int (r_x0ms r)) = p1"
      using e0 by (rule exact_line)
    then show ?thesis
      unfolding Let_def e_def [symmetric] x1 by simp
  qed
  have m: "r_m r = ddiv (dsub (r_y1 r) (r_y0 r)) (Fin (of_int (r_x1ms r - r_x0ms r)))"
    and b: "r_b r = dsub (r_y0 r) (dmul (r_m r) (Fin (of_int (r_x0ms r))))"
    using c by (simp_all add: compiled_def)
  from ne exact m b compiled_near_anchors [OF c assms(2-7)] show ?thesis by blast
qed

theorem projection_near_anchors_witness:
  "plot_sources (map raw_tl [(''res'', seg_a), (''sup'', seg_b)]) = Inr ([row_a], [row_b]) \<and>
   r_y0 row_a = Fin 29 \<and> r_y1 row_a = Fin 49 \<and> r_x0ms row_a = 0 \<and> r_x1ms row_a = 100 \<and>
   r_m row_a = Fin (3602879701896397 / 18014398509481984) \<and> r_b row_a = Fin 29 \<and>
   project row_a (Fin 0) = Fin 29 \<and> project row_a (Fin 100) = Fin 49 \<and>
   plot_sources [raw_tl (''res'', seg_epoch)] = Inr ([row_of seg_epoch], []) \<and>
   project (row_of seg_epoch) (Fin 1700000000000) = Fin (811 / 8) \<and>
   \<bar>811 / 8 - 891659949661225 / 8796093022208 :: rat\<bar>
     \<le> 3 * unit_roundoff *
         (\<bar>891659949661225 / 8796093022208\<bar> + \<bar>440860182273065 / 8796093022208 * 1700000000000\<bar>)
       + 3 * eta"
proof -
  have p: "plot_sources (map raw_tl [(''res'', seg_a), (''sup'', seg_b)]) = Inr ([row_a], [row_b])"
    using plot_sources_segments [of "[(''res'', seg_a), (''sup'', seg_b)]"]
    by (simp add: sample_vertical sample_rows)
  have f: "r_y0 row_a = Fin 29" "r_y1 row_a = Fin 49" "r_x0ms row_a = 0" "r_x1ms row_a = 100"
    "r_m row_a = Fin (3602879701896397 / 18014398509481984)" "r_b row_a = Fin 29"
    by (simp_all add: row_a_def)
  have v: "project row_a (Fin 0) = Fin 29" "project row_a (Fin 100) = Fin 49"
    by code_simp+
  have p': "plot_sources [raw_tl (''res'', seg_epoch)] = Inr ([row_of seg_epoch], [])"
    using plot_sources_segments [of "[(''res'', seg_epoch)]"]
    by (simp add: row_of_seg_epoch)
  from projection_near_anchors
    [of "[]" "[]" row_a "map raw_tl [(''res'', seg_a), (''sup'', seg_b)]" "[row_a]" "[row_b]"
        29 49 "3602879701896397 / 18014398509481984" 29 29 49]
  have a: "r_x0ms row_a \<noteq> r_x1ms row_a"
    using p f v by simp
  from projection_near_anchors
    [of "[]" "[]" "row_of seg_epoch" "[raw_tl (''res'', seg_epoch)]" "[row_of seg_epoch]" "[]"
        "891659949661225 / 8796093022208" "666260065967145 / 4398046511104"
        "440860182273065 / 8796093022208" "- (681631999999189 / 8)" "811 / 8" "303 / 2"]
  have b: "\<bar>811 / 8 - 891659949661225 / 8796093022208 :: rat\<bar>
     \<le> 3 * unit_roundoff *
         (\<bar>891659949661225 / 8796093022208\<bar> + \<bar>440860182273065 / 8796093022208 * 1700000000000\<bar>)
       + 3 * eta"
    using p' by (simp only: row_of_seg_epoch of_int_numeral list.set insert_iff Un_iff
        simp_thms)
  from p f v p' row_of_seg_epoch(7) b show ?thesis by blast
qed

text \<open>
  C7 as it is stated fails for the doubles the code computes. For the finite prices
  \<open>-2^1023\<close> and \<open>2^1023\<close> the difference overflows: the slope is infinite, the intercept
  minus infinity, and the projection at either anchor time is NaN. And on the line from
  101.37 to 151.49 over one millisecond at an epoch time, nothing overflows and the
  projection at the start time is 101.375.
\<close>

theorem projection_anchor_counterexample:
  "plot_sources [raw_tl (''res'', seg_huge)] = Inr ([row_of seg_huge], []) \<and>
   mk_src [raw seg_huge] = Inr [row_of seg_huge] \<and>
   r_y0 (row_of seg_huge) = Fin (- huge) \<and> r_x0ms (row_of seg_huge) = 1 \<and>
   r_m (row_of seg_huge) = PosInf \<and> r_b (row_of seg_huge) = NegInf \<and>
   project (row_of seg_huge) (Fin 1) = NaN \<and>
   plot_sources [raw_tl (''res'', seg_epoch)] = Inr ([row_of seg_epoch], []) \<and>
   mk_src [raw seg_epoch] = Inr [row_of seg_epoch] \<and>
   r_y0 (row_of seg_epoch) = Fin (891659949661225 / 8796093022208) \<and>
   r_x0ms (row_of seg_epoch) = 1700000000000 \<and>
   project (row_of seg_epoch) (Fin 1700000000000) = Fin (811 / 8) \<and>
   (811 / 8 :: rat) - 891659949661225 / 8796093022208 = 43980465111 / 8796093022208"
proof -
  have a: "plot_sources [raw_tl (''res'', seg_huge)] = Inr ([row_of seg_huge], [])"
    using plot_sources_segments [of "[(''res'', seg_huge)]"] by (simp add: row_of_seg_huge)
  have b: "mk_src [raw seg_huge] = Inr [row_of seg_huge]"
    using mk_src_segments [of "[seg_huge]"] by (simp add: row_of_seg_huge)
  have c: "plot_sources [raw_tl (''res'', seg_epoch)] = Inr ([row_of seg_epoch], [])"
    using plot_sources_segments [of "[(''res'', seg_epoch)]"] by (simp add: row_of_seg_epoch)
  have d: "mk_src [raw seg_epoch] = Inr [row_of seg_epoch]"
    using mk_src_segments [of "[seg_epoch]"] by (simp add: row_of_seg_epoch)
  have e: "(811 / 8 :: rat) - 891659949661225 / 8796093022208 = 43980465111 / 8796093022208"
    by simp
  from a b c d e row_of_seg_huge row_of_seg_epoch show ?thesis by blast
qed

text \<open>
  C9, as the code has it. Neither compiler catches an exception. A sequence compiles exactly
  when none of its segments has an anchor value that a conversion refuses; otherwise the
  exception of the conversion leaves the compiler and no row is returned, not even for the
  segments before or after the refused one. \<open>plot_with_prev_deltas\<close> converts all four
  anchor values of every segment; \<open>_mk_src\<close> converts both timestamps of every segment and
  the prices of the segments it does not skip as vertical.
\<close>

theorem malformed_anchor_aborts_compilation:
  "((\<exists>e. mk_src recs = Inl e) = (\<exists>s\<in>set recs. refused s)) \<and>
   ((\<exists>out. mk_src recs = Inr out) = (\<forall>s\<in>set recs. \<not> refused s)) \<and>
   ((\<exists>e. plot_sources tls = Inl e) = (\<exists>t\<in>set tls. refused_tl t)) \<and>
   ((\<exists>srcs. plot_sources tls = Inr srcs) = (\<forall>t\<in>set tls. \<not> refused_tl t))"
proof -
  have a: "(\<exists>e. mk_src recs = Inl e) = (\<exists>s\<in>set recs. refused s)"
    by (rule mk_src_Inl_iff)
  have b: "(\<exists>out. mk_src recs = Inr out) = (\<forall>s\<in>set recs. \<not> refused s)"
    using a by (cases "mk_src recs") auto
  have c: "(\<exists>e. plot_sources tls = Inl e) = (\<exists>t\<in>set tls. refused_tl t)"
    by (rule plot_sources_Inl_iff)
  have d: "(\<exists>srcs. plot_sources tls = Inr srcs) = (\<forall>t\<in>set tls. \<not> refused_tl t)"
    using c by (cases "plot_sources tls") auto
  from a b c d show ?thesis by blast
qed

theorem malformed_anchor_aborts_compilation_witness:
  "refused bad_tuple \<and> (\<exists>e. mk_src [bad_tuple, raw seg_a] = Inl e) \<and>
   refused_tl bad_tl \<and> (\<exists>e. plot_sources [bad_tl, raw_tl (''res'', seg_a)] = Inl e) \<and>
   \<not> refused (raw seg_a) \<and> (\<exists>out. mk_src [raw seg_a] = Inr out)"
  using malformed_anchor_aborts_compilation [of "[bad_tuple, raw seg_a]" "[bad_tl, raw_tl (''res'', seg_a)]"]
    malformed_anchor_aborts_compilation [of "[raw seg_a]" "[]"]
  by (simp add: sample_refused)

text \<open>
  C9 as it is stated fails: with a price that is not a number on the first of two
  segments, neither compiler returns the row of the second; both leave with the
  exception of \<open>float\<close>, although the second segment alone compiles.
\<close>

theorem malformed_anchor_counterexample:
  "mk_src [bad_tuple, raw seg_a] = Inl FloatError \<and>
   plot_sources [bad_tl, raw_tl (''res'', seg_a)] = Inl FloatError \<and>
   mk_src [raw seg_a] = Inr [row_a] \<and>
   plot_sources [raw_tl (''res'', seg_a)] = Inr ([row_a], [])"
proof -
  have a: "mk_src [bad_tuple, raw seg_a] = Inl FloatError"
    by (simp add: mk_src_def bad_tuple_def to_ms_simps)
  have b: "plot_sources [bad_tl, raw_tl (''res'', seg_a)] = Inl FloatError"
    by (simp add: plot_sources_def bad_tl_def to_ms_simps)
  have c: "mk_src [raw seg_a] = Inr [row_a]"
    using mk_src_segments [of "[seg_a]"] by (simp add: sample_vertical sample_rows)
  have d: "plot_sources [raw_tl (''res'', seg_a)] = Inr ([row_a], [])"
    using plot_sources_segments [of "[(''res'', seg_a)]"]
    by (simp add: sample_vertical sample_rows)
  from a b c d show ?thesis by simp
qed

text \<open>
  C10. In a row returned by either compiler the key \<open>x_end\<close> is the later of the two
  times, whichever anchor it belongs to, and a one-row index answers exactly the queries
  at or after that time. A segment given with its anchors exchanged, if not vertical,
  compiles to a row with the same key.
\<close>

theorem x_end_is_later_endpoint:
  assumes "mk_src recs = Inr out \<and> r \<in> set out \<or>
           plot_sources tls = Inr (res_src, sup_src) \<and> r \<in> set res_src \<union> set sup_src"
  shows "r_x_end r = max (r_x0ms r) (r_x1ms r) \<and>
         r_x0ms r \<le> r_x_end r \<and> r_x1ms r \<le> r_x_end r \<and>
         mostRecentAt [r] (Fin t) =
           (if of_int (max (r_x0ms r) (r_x1ms r)) \<le> t then Some r else None) \<and>
         (\<not> vertical (x0, y0, x1, y1) \<longrightarrow>
            mk_src [raw (x0, y0, x1, y1)] = Inr [row_of (x0, y0, x1, y1)] \<and>
            mk_src [raw (x1, y1, x0, y0)] = Inr [row_of (x1, y1, x0, y0)] \<and>
            r_x_end (row_of (x1, y1, x0, y0)) = r_x_end (row_of (x0, y0, x1, y1)) \<and>
            r_x_end (row_of (x0, y0, x1, y1)) = max (x0 div 10 ^ 6) (x1 div 10 ^ 6))"
proof -
  have "compiled r"
    using assms mk_src_compiled plot_sources_compiled by blast
  then have e: "r_x_end r = max (r_x0ms r) (r_x1ms r)" by (simp add: compiled_def)
  have a: "r_x0ms r \<le> r_x_end r \<and> r_x1ms r \<le> r_x_end r" by (simp add: e)
  have b: "mostRecentAt [r] (Fin t) =
           (if of_int (max (r_x0ms r) (r_x1ms r)) \<le> t then Some r else None)"
    by (simp only: mostRecentAt_single e)
  have c: "\<not> vertical (x0, y0, x1, y1) \<longrightarrow>
            mk_src [raw (x0, y0, x1, y1)] = Inr [row_of (x0, y0, x1, y1)] \<and>
            mk_src [raw (x1, y1, x0, y0)] = Inr [row_of (x1, y1, x0, y0)] \<and>
            r_x_end (row_of (x1, y1, x0, y0)) = r_x_end (row_of (x0, y0, x1, y1)) \<and>
            r_x_end (row_of (x0, y0, x1, y1)) = max (x0 div 10 ^ 6) (x1 div 10 ^ 6)"
  proof
    assume nv: "\<not> vertical (x0, y0, x1, y1)"
    then have nv': "\<not> vertical (x1, y1, x0, y0)" by (auto simp: vertical_def)
    have "mk_src [raw (x0, y0, x1, y1)] = Inr [row_of (x0, y0, x1, y1)]"
      using mk_src_segments [of "[(x0, y0, x1, y1)]"] nv by simp
    moreover have "mk_src [raw (x1, y1, x0, y0)] = Inr [row_of (x1, y1, x0, y0)]"
      using mk_src_segments [of "[(x1, y1, x0, y0)]"] nv' by simp
    ultimately show "mk_src [raw (x0, y0, x1, y1)] = Inr [row_of (x0, y0, x1, y1)] \<and>
            mk_src [raw (x1, y1, x0, y0)] = Inr [row_of (x1, y1, x0, y0)] \<and>
            r_x_end (row_of (x1, y1, x0, y0)) = r_x_end (row_of (x0, y0, x1, y1)) \<and>
            r_x_end (row_of (x0, y0, x1, y1)) = max (x0 div 10 ^ 6) (x1 div 10 ^ 6)"
      by (simp add: r_x_end_row_of max.commute)
  qed
  from e a b c show ?thesis by blast
qed

theorem x_end_is_later_endpoint_witness:
  "mk_src (map raw [seg_a, seg_v, seg_b, seg_c]) = Inr [row_a, row_b, row_c] \<and>
   r_x0ms row_c = 100 \<and> r_x1ms row_c = 40 \<and> r_x_end row_c = 100 \<and>
   mostRecentAt [row_c] (Fin 99) = None \<and> mostRecentAt [row_c] (Fin 100) = Some row_c \<and>
   mk_src [raw (40000000, Fin 70, 100000000, Fin 10)]
     = Inr [row_of (40000000, Fin 70, 100000000, Fin 10)] \<and>
   r_x_end (row_of (40000000, Fin 70, 100000000, Fin 10)) = 100"
proof -
  have m: "mk_src (map raw [seg_a, seg_v, seg_b, seg_c]) = Inr [row_a, row_b, row_c]"
    using mk_src_segments [of "[seg_a, seg_v, seg_b, seg_c]"]
    by (simp add: sample_vertical sample_rows)
  have f: "r_x0ms row_c = 100" "r_x1ms row_c = 40" "r_x_end row_c = 100"
    by (simp_all add: row_c_def)
  have v: "\<not> vertical (100000000, Fin 10, 40000000, Fin 70)"
    by (simp add: vertical_def)
  from x_end_is_later_endpoint
    [of "map raw [seg_a, seg_v, seg_b, seg_c]" "[row_a, row_b, row_c]" row_c
        "[]" "[]" "[]" 99 100000000 "Fin 10" 40000000 "Fin 70"]
       x_end_is_later_endpoint
    [of "map raw [seg_a, seg_v, seg_b, seg_c]" "[row_a, row_b, row_c]" row_c
        "[]" "[]" "[]" 100 100000000 "Fin 10" 40000000 "Fin 70"]
  show ?thesis
    using m f v by (simp add: r_x_end_row_of)
qed

section \<open>CursorQueryHandler\<close>

lemma pct_scenario:
  "pct ts (Fin 52) (Some (Fin 50)) = Inr ''+4.00%''"
  "pct ts (Fin 52) (Some (Fin 40)) = Inr ''+30.00%''"
  by code_simp+

text \<open>
  C6. The line of the row found is evaluated at the query time as it is, with no clamping
  to the span of the segment: for finite slope \<open>m\<close> and intercept \<open>b\<close> the reference at
  any \<open>t\<close> is the double sum of the double product \<open>m * t\<close> and \<open>b\<close>, which, when finite,
  is within \<open>2^-53 * (3 * |m * t| + |b|) + 3 * 2^-1075\<close> of \<open>m * t + b\<close>; and it is the
  reference for every \<open>t\<close> at or after the end of the row. With a resistance row ending at
  100 ms whose line is at 50 at 105 ms and a support row ending at 90 ms whose line is at
  40 there, the callback at 105 ms with 52 observed writes \<open>+4.00%\<close> and \<open>+30.00%\<close>.
\<close>

theorem projection_extrapolates_scenario:
  "(of_int (r_x_end r) \<le> t \<longrightarrow>
      prevY [r] (Fin t) = Some (project r (Fin t)) \<and>
      yPrevAtDate [r] (Fin t) = Some (project r (Fin t))) \<and>
   (r_m r = Fin m \<and> r_b r = Fin b \<longrightarrow>
      project r (Fin t) = dadd (dmul (Fin m) (Fin t)) (Fin b)) \<and>
   (r_m r = Fin m \<and> r_b r = Fin b \<and> project r (Fin t) = Fin v \<longrightarrow>
      \<bar>v - (m * t + b)\<bar> \<le> unit_roundoff * (3 * \<bar>m * t\<bar> + \<bar>b\<bar>) + 3 * eta) \<and>
   (r_x_end rr = 100 \<and> project rr (Fin 105) = Fin 50 \<and>
    r_x_end rs = 90 \<and> project rs (Fin 105) = Fin 40 \<longrightarrow>
      callback ts [rr] [rs] (Fin 105) (Fin 52) =
        Inr (''<b>'' @ Delta @ '' vs prev RES:</b> +4.00% &nbsp; | &nbsp; <b>'' @ Delta @
             '' vs prev SUP:</b> +30.00%''))"
proof (intro conjI impI)
  assume "of_int (r_x_end r) \<le> t"
  then show "prevY [r] (Fin t) = Some (project r (Fin t))"
    and "yPrevAtDate [r] (Fin t) = Some (project r (Fin t))"
    by (simp_all add: prevY_single yPrevAtDate_def prevY_def [symmetric])
next
  assume "r_m r = Fin m \<and> r_b r = Fin b"
  then show "project r (Fin t) = dadd (dmul (Fin m) (Fin t)) (Fin b)"
    by (simp add: project_def)
next
  assume "r_m r = Fin m \<and> r_b r = Fin b \<and> project r (Fin t) = Fin v"
  then show "\<bar>v - (m * t + b)\<bar> \<le> unit_roundoff * (3 * \<bar>m * t\<bar> + \<bar>b\<bar>) + 3 * eta"
    using project_near_line [of r m b t v] by blast
next
  assume h: "r_x_end rr = 100 \<and> project rr (Fin 105) = Fin 50 \<and>
    r_x_end rs = 90 \<and> project rs (Fin 105) = Fin 40"
  then have "prevY [rr] (Fin 105) = Some (Fin 50)" "prevY [rs] (Fin 105) = Some (Fin 40)"
    by (simp_all add: prevY_single)
  then show "callback ts [rr] [rs] (Fin 105) (Fin 52) =
        Inr (''<b>'' @ Delta @ '' vs prev RES:</b> +4.00% &nbsp; | &nbsp; <b>'' @ Delta @
             '' vs prev SUP:</b> +30.00%'')"
    by (simp add: callback_def Let_def pct_scenario)
qed

theorem projection_extrapolates_scenario_witness:
  "plot_sources (map raw_tl [(''res'', seg_a), (''sup'', seg_b)]) = Inr ([row_a], [row_b]) \<and>
   r_x1ms row_a = 100 \<and> r_x_end row_a = 100 \<and> r_x1ms row_b = 90 \<and> r_x_end row_b = 90 \<and>
   prevY [row_a] (Fin 105) = Some (Fin 50) \<and> prevY [row_b] (Fin 105) = Some (Fin 40) \<and>
   callback (\<lambda>q. []) [row_a] [row_b] (Fin 105) (Fin 52) =
     Inr (''<b>'' @ Delta @ '' vs prev RES:</b> +4.00% &nbsp; | &nbsp; <b>'' @ Delta @
          '' vs prev SUP:</b> +30.00%'')"
proof -
  have p: "plot_sources (map raw_tl [(''res'', seg_a), (''sup'', seg_b)]) = Inr ([row_a], [row_b])"
    using plot_sources_segments [of "[(''res'', seg_a), (''sup'', seg_b)]"]
    by (simp add: sample_vertical sample_rows)
  have f: "r_x1ms row_a = 100" "r_x_end row_a = 100" "r_x1ms row_b = 90" "r_x_end row_b = 90"
    by (simp_all add: row_a_def row_b_def)
  have v: "project row_a (Fin 105) = Fin 50" "project row_b (Fin 105) = Fin 40"
    by code_simp+
  from projection_extrapolates_scenario
         [where r = row_a and t = 105 and rr = row_a and rs = row_b and ts = "\<lambda>q. []"]
       projection_extrapolates_scenario
         [where r = row_b and t = 105 and rr = row_a and rs = row_b and ts = "\<lambda>q. []"]
  show ?thesis
    using p f v by simp
qed

end
